theory Spec2Isabelle
  imports Complex_Main
begin

section \<open>JavaScript strings and values\<close>

text \<open>
  A JavaScript string is a sequence of UTF-16 code units. It is modelled as a
  \<^typ>\<open>string\<close>; a \<^typ>\<open>char\<close> stands for one code unit in the range
  U+0000 .. U+00FF (Latin-1). Strings with code units above U+00FF are not covered.
  Reading a string at an index outside of it gives \<open>undefined\<close> in JavaScript: \<open>None\<close>.
\<close>

definition charAt :: "string \<Rightarrow> nat \<Rightarrow> char option" where
  "charAt word i = (if i < length word then Some (word ! i) else None)"

text \<open>The character class \<open>[a-zA-Z]\<close> of the regular expression in \<open>stemming\<close>.\<close>

definition isAlpha :: "char \<Rightarrow> bool" where
  "isAlpha c = (let n = (of_char c :: nat) in (65 \<le> n \<and> n \<le> 90) \<or> (97 \<le> n \<and> n \<le> 122))"

text \<open>
  \<open>String.prototype.toLowerCase\<close> on Latin-1: the letters A .. Z and U+00C0 .. U+00DE
  (U+00D7, the multiplication sign, apart) move 32 places up; every other code unit stays.
\<close>

definition toLowerCaseChar :: "char \<Rightarrow> char" where
  "toLowerCaseChar c =
     (let n = (of_char c :: nat) in
      if (65 \<le> n \<and> n \<le> 90) \<or> (192 \<le> n \<and> n \<le> 222 \<and> n \<noteq> 215)
      then char_of (n + 32) else c)"

definition toLowerCase :: "string \<Rightarrow> string" where
  "toLowerCase s = map toLowerCaseChar s"

text \<open>
  The class \<open>\s\<close> of a JavaScript regular expression, on Latin-1: tab, line feed,
  vertical tab, form feed, carriage return, space and the no-break space U+00A0.
\<close>

definition isSpace :: "char \<Rightarrow> bool" where
  "isSpace c = (let n = (of_char c :: nat) in (9 \<le> n \<and> n \<le> 13) \<or> n = 32 \<or> n = 160)"

text \<open>
  \<open>s.split(/\s+/)\<close>: the pieces of \<open>s\<close> between the maximal runs of white space. A run
  at the start or the end of \<open>s\<close> leaves an empty piece there, and the empty string
  splits into one empty piece.
\<close>

function split_ws :: "string \<Rightarrow> string list" where
  "split_ws s =
     (case dropWhile (\<lambda>c. \<not> isSpace c) s of
        [] \<Rightarrow> [s]
      | c # r \<Rightarrow> takeWhile (\<lambda>c. \<not> isSpace c) s # split_ws (dropWhile isSpace r))"
  by pat_completeness auto
termination
proof (relation "measure length")
  show "wf (measure length)" by simp
next
  fix s :: string and c r
  assume a: "dropWhile (\<lambda>c. \<not> isSpace c) s = c # r"
  have "length (dropWhile isSpace r) \<le> length r"
    by (rule length_dropWhile_le)
  moreover have "length (c # r) \<le> length s"
    using length_dropWhile_le [of "\<lambda>c. \<not> isSpace c" s] a by simp
  ultimately show "(dropWhile isSpace r, s) \<in> measure length"
    by simp
qed

declare split_ws.simps [simp del]

text \<open>\<open>xs.join(' ')\<close> on an array of strings.\<close>

fun join_sp :: "string list \<Rightarrow> string" where
  "join_sp [] = []"
| "join_sp [x] = x"
| "join_sp (x # y # ys) = x @ CHR '' '' # join_sp (y # ys)"

section \<open>The Porter stemmer\<close>

text \<open>
  \<open>irregularForms\<close>, in the order of the object literal: a stem and its irregular forms.
\<close>

definition irregularForms :: "(string \<times> string list) list" where
  "irregularForms =
     [(''sky'', [''sky'', ''skies'']),
      (''die'', [''dying'']),
      (''lie'', [''lying'']),
      (''tie'', [''tying'']),
      (''news'', [''news'']),
      (''inning'', [''innings'', ''inning'']),
      (''outing'', [''outings'', ''outing'']),
      (''canning'', [''cannings'', ''canning'']),
      (''howe'', [''howe'']),
      (''proceed'', [''proceed'']),
      (''exceed'', [''exceed'']),
      (''succeed'', [''succeed''])]"

text \<open>
  The constructor's two loops invert the table: \<open>this.pool[form] = stem\<close> for every
  form of every stem, a later assignment overwriting an earlier one. These are the own
  properties of \<open>this.pool\<close>.
\<close>

definition pool :: "string \<rightharpoonup> string" where
  "pool =
     fold (\<lambda>(stem, forms) p. fold (\<lambda>form p. p(form \<mapsto> stem)) forms p)
       irregularForms Map.empty"

text \<open>
  \<open>this.pool\<close> is created by the literal \<open>{}\<close>, so its prototype is \<open>Object.prototype\<close>,
  and \<open>this.pool[w]\<close> reads a property of that name through the prototype chain when
  the pool has no own property \<open>w\<close>. The value read is then not a string but a member
  of \<open>Object.prototype\<close>: \<open>JInherited name\<close>. With no property of that name anywhere
  the value is \<open>undefined\<close>.
\<close>

datatype js_value = JStr string | JInherited string | JUndefined

definition object_prototype_names :: "string list" where
  "object_prototype_names =
     [''constructor'', ''__defineGetter__'', ''__defineSetter__'', ''hasOwnProperty'',
      ''__lookupGetter__'', ''__lookupSetter__'', ''isPrototypeOf'',
      ''propertyIsEnumerable'', ''toString'', ''valueOf'', ''__proto__'',
      ''toLocaleString'']"

text \<open>\<open>this.pool[w]\<close>.\<close>

definition pool_get :: "string \<Rightarrow> js_value" where
  "pool_get w =
     (case pool w of
        Some s \<Rightarrow> JStr s
      | None \<Rightarrow> if w \<in> set object_prototype_names then JInherited w else JUndefined)"

text \<open>
  Truthiness, as the test \<open>if (this.pool[w])\<close> reads it: a string is truthy unless
  empty; the members of \<open>Object.prototype\<close> are functions and objects, all truthy;
  \<open>undefined\<close> is falsy.
\<close>

fun truthy :: "js_value \<Rightarrow> bool" where
  "truthy (JStr s) = (s \<noteq> [])"
| "truthy (JInherited n) = True"
| "truthy JUndefined = False"

text \<open>
  The string of a value, as \<open>Array.prototype.join\<close> takes it (V8): \<open>pool.constructor\<close>
  is the function \<open>Object\<close>, \<open>pool.__proto__\<close> is \<open>Object.prototype\<close> itself, the
  other members are native functions of their own names; \<open>undefined\<close> is joined as
  the empty string.
\<close>

fun js_toString :: "js_value \<Rightarrow> string" where
  "js_toString (JStr s) = s"
| "js_toString (JInherited n) =
     (if n = ''constructor'' then ''function Object() { [native code] }''
      else if n = ''__proto__'' then ''[object Object]''
      else ''function '' @ n @ ''() { [native code] }'')"
| "js_toString JUndefined = []"

definition vowels :: "char set" where
  "vowels = {CHR ''a'', CHR ''e'', CHR ''i'', CHR ''o'', CHR ''u''}"

text \<open>
  \<open>isConsonant(word, i)\<close>. Outside of the word \<open>word[i]\<close> is \<open>undefined\<close>, which is
  neither a vowel nor \<open>"y"\<close>: the answer is \<open>true\<close>.
\<close>

fun isConsonant :: "string \<Rightarrow> nat \<Rightarrow> bool" where
  "isConsonant word i =
     (case charAt word i of
        None \<Rightarrow> True
      | Some c \<Rightarrow>
          if c \<in> vowels then False
          else if c = CHR ''y'' then (case i of 0 \<Rightarrow> True | Suc j \<Rightarrow> \<not> isConsonant word j)
          else True)"

declare isConsonant.simps [simp del]

text \<open>The first loop of \<open>measure\<close>: one \<open>c\<close> or \<open>v\<close> for each position of the stem.\<close>

definition cvSequence :: "string \<Rightarrow> string" where
  "cvSequence stem =
     map (\<lambda>i. if isConsonant stem i then CHR ''c'' else CHR ''v'') [0..<length stem]"

text \<open>
  \<open>s.indexOf(pat, from)\<close>: the first position at or after \<open>from\<close> where \<open>pat\<close> stands
  in \<open>s\<close>; \<open>None\<close> is the result \<open>-1\<close>.
\<close>

definition indexOf :: "string \<Rightarrow> string \<Rightarrow> nat \<Rightarrow> nat option" where
  "indexOf s pat from =
     List.find (\<lambda>i. take (length pat) (drop i s) = pat)
       [min from (length s)..<Suc (length s)]"

text \<open>
  The second loop of \<open>measure\<close>: \<open>while (pos !== -1) { count++; pos = indexOf("vc", pos + 1) }\<close>.
\<close>

function vc_loop :: "string \<Rightarrow> nat option \<Rightarrow> nat \<Rightarrow> nat" where
  "vc_loop cv pos count =
     (case pos of
        None \<Rightarrow> count
      | Some p \<Rightarrow> vc_loop cv (indexOf cv ''vc'' (p + 1)) (count + 1))"
  by pat_completeness auto
termination
proof (relation "measure (\<lambda>(cv, pos, count). case pos of None \<Rightarrow> 0 | Some p \<Rightarrow> Suc (Suc (length cv) - p))")
  show "wf (measure (\<lambda>(cv, pos, count). case pos of None \<Rightarrow> 0 | Some p \<Rightarrow> Suc (Suc (length cv) - p)))"
    by simp
next
  fix cv :: string and pos :: "nat option" and count p :: nat
  assume "pos = Some p"
  show "((cv, indexOf cv ''vc'' (p + 1), count + 1), (cv, pos, count))
        \<in> measure (\<lambda>(cv, pos, count). case pos of None \<Rightarrow> 0 | Some p \<Rightarrow> Suc (Suc (length cv) - p))"
  proof (cases "indexOf cv ''vc'' (p + 1)")
    case None
    then show ?thesis using \<open>pos = Some p\<close> by simp
  next
    case (Some q)
    then obtain i where i: "i < length [min (p + 1) (length cv)..<Suc (length cv)]"
      and m: "take (length ''vc'') (drop q cv) = ''vc''"
      and q: "q = [min (p + 1) (length cv)..<Suc (length cv)] ! i"
      unfolding indexOf_def find_Some_iff by blast
    from i q have "q \<in> set [min (p + 1) (length cv)..<Suc (length cv)]"
      using nth_mem by blast
    then have lo: "min (p + 1) (length cv) \<le> q" by auto
    have "length (take (length ''vc'') (drop q cv)) = 2" using m by simp
    then have hi: "q + 2 \<le> length cv" by simp
    from lo hi have "p < q" by (simp add: min_def split: if_splits)
    with hi show ?thesis using Some \<open>pos = Some p\<close> by simp
  qed
qed

declare vc_loop.simps [simp del]

definition measure_m :: "string \<Rightarrow> nat" where
  "measure_m stem = (let cv = cvSequence stem in vc_loop cv (indexOf cv ''vc'' 0) 0)"

definition hasPositiveMeasure :: "string \<Rightarrow> bool" where
  "hasPositiveMeasure stem = (measure_m stem > 0)"

definition containsVowel :: "string \<Rightarrow> bool" where
  "containsVowel stem = list_ex (\<lambda>i. \<not> isConsonant stem i) [0..<length stem]"

definition endsDoubleConsonant :: "string \<Rightarrow> bool" where
  "endsDoubleConsonant word =
     (length word \<ge> 2 \<and>
      word ! (length word - 1) = word ! (length word - 2) \<and>
      isConsonant word (length word - 1))"

definition endsCVC :: "string \<Rightarrow> bool" where
  "endsCVC word =
     (let len = length word;
          standardCVC =
            (len \<ge> 3 \<and>
             isConsonant word (len - 3) \<and>
             \<not> isConsonant word (len - 2) \<and>
             isConsonant word (len - 1) \<and>
             word ! (len - 1) \<notin> {CHR ''w'', CHR ''x'', CHR ''y''});
          nltkCVC = (len = 2 \<and> \<not> isConsonant word 0 \<and> isConsonant word 1)
      in standardCVC \<or> nltkCVC)"

definition endsWith :: "string \<Rightarrow> string \<Rightarrow> bool" where
  "endsWith word suffix =
     (length suffix \<le> length word \<and> drop (length word - length suffix) word = suffix)"

text \<open>\<open>word.slice(0, -n)\<close> for \<open>n > 0\<close>: the word without its last \<open>n\<close> characters.\<close>

definition slice_end :: "string \<Rightarrow> nat \<Rightarrow> string" where
  "slice_end word n = take (length word - n) word"

definition replaceSuffix :: "string \<Rightarrow> string \<Rightarrow> string \<Rightarrow> string" where
  "replaceSuffix word suffix replacement =
     (if \<not> endsWith word suffix then word
      else if suffix = [] then word @ replacement
      else slice_end word (length suffix) @ replacement)"

text \<open>
  A rule is \<open>[suffix, replacement, condition]\<close>; \<open>None\<close> is the condition \<open>null\<close>, and
  \<open>!condition || condition(stem)\<close> is \<open>holds condition stem\<close>.
\<close>

type_synonym rule = "string \<times> string \<times> (string \<Rightarrow> bool) option"

fun holds :: "(string \<Rightarrow> bool) option \<Rightarrow> string \<Rightarrow> bool" where
  "holds None stem = True"
| "holds (Some condition) stem = condition stem"

fun applyRuleList :: "string \<Rightarrow> rule list \<Rightarrow> string" where
  "applyRuleList word [] = word"
| "applyRuleList word ((suffix, replacement, condition) # rules) =
     (if suffix = ''*d'' \<and> endsDoubleConsonant word then
        (let stem = slice_end word 2 in
         if holds condition stem then stem @ replacement else word)
      else if endsWith word suffix then
        (let stem = replaceSuffix word suffix [] in
         if holds condition stem then stem @ replacement else word)
      else applyRuleList word rules)"

definition step1a :: "string \<Rightarrow> string" where
  "step1a word =
     (if endsWith word ''ies'' \<and> length word = 4 then replaceSuffix word ''ies'' ''ie''
      else applyRuleList word
        [(''sses'', ''ss'', None),
         (''ies'', ''i'', None),
         (''ss'', ''ss'', None),
         (''s'', [], None)])"

text \<open>
  The loop of \<open>step1b\<close> over \<open>["ed", "ing"]\<close>: the stem left by the first of the suffixes
  that the word ends with and whose removal leaves a vowel; \<open>None\<close> when
  \<open>rule2Or3Succeeded\<close> stays \<open>false\<close>.
\<close>

fun ed_ing_loop :: "string \<Rightarrow> string list \<Rightarrow> string option" where
  "ed_ing_loop word [] = None"
| "ed_ing_loop word (suffix # rest) =
     (if endsWith word suffix \<and> containsVowel (replaceSuffix word suffix [])
      then Some (replaceSuffix word suffix [])
      else ed_ing_loop word rest)"

text \<open>
  \<open>intermediateStem[intermediateStem.length - 1]\<close>, as a replacement string and as the
  argument of \<open>includes\<close>; on the empty string it is \<open>undefined\<close>.
\<close>

definition lastCharStr :: "string \<Rightarrow> string" where
  "lastCharStr s = (case charAt s (length s - 1) of None \<Rightarrow> ''undefined'' | Some c \<Rightarrow> [c])"

definition lastCharIn :: "string \<Rightarrow> char set \<Rightarrow> bool" where
  "lastCharIn s cs = (case charAt s (length s - 1) of None \<Rightarrow> False | Some c \<Rightarrow> c \<in> cs)"

definition step1b_cleanup :: "string \<Rightarrow> rule list" where
  "step1b_cleanup intermediateStem =
     [(''at'', ''ate'', None),
      (''bl'', ''ble'', None),
      (''iz'', ''ize'', None),
      (''*d'', lastCharStr intermediateStem,
         Some (\<lambda>stem. \<not> lastCharIn intermediateStem {CHR ''l'', CHR ''s'', CHR ''z''})),
      ([], ''e'', Some (\<lambda>stem. measure_m stem = 1 \<and> endsCVC stem))]"

definition step1b :: "string \<Rightarrow> string" where
  "step1b word =
     (if endsWith word ''ied'' then
        (if length word = 4 then replaceSuffix word ''ied'' ''ie''
         else replaceSuffix word ''ied'' ''i'')
      else if endsWith word ''eed'' then
        (let stem = replaceSuffix word ''eed'' [] in
         if measure_m stem > 0 then stem @ ''ee'' else word)
      else
        (case ed_ing_loop word [''ed'', ''ing''] of
           None \<Rightarrow> word
         | Some intermediateStem \<Rightarrow>
             applyRuleList intermediateStem (step1b_cleanup intermediateStem)))"

definition step1c :: "string \<Rightarrow> string" where
  "step1c word =
     applyRuleList word
       [(''y'', ''i'', Some (\<lambda>stem. length stem > 1 \<and> isConsonant stem (length stem - 1)))]"

definition step2_rules :: "string \<Rightarrow> rule list" where
  "step2_rules word =
     [(''ational'', ''ate'', Some hasPositiveMeasure),
      (''tional'', ''tion'', Some hasPositiveMeasure),
      (''enci'', ''ence'', Some hasPositiveMeasure),
      (''anci'', ''ance'', Some hasPositiveMeasure),
      (''izer'', ''ize'', Some hasPositiveMeasure),
      (''bli'', ''ble'', Some hasPositiveMeasure),
      (''alli'', ''al'', Some hasPositiveMeasure),
      (''entli'', ''ent'', Some hasPositiveMeasure),
      (''eli'', ''e'', Some hasPositiveMeasure),
      (''ousli'', ''ous'', Some hasPositiveMeasure),
      (''ization'', ''ize'', Some hasPositiveMeasure),
      (''ation'', ''ate'', Some hasPositiveMeasure),
      (''ator'', ''ate'', Some hasPositiveMeasure),
      (''alism'', ''al'', Some hasPositiveMeasure),
      (''iveness'', ''ive'', Some hasPositiveMeasure),
      (''fulness'', ''ful'', Some hasPositiveMeasure),
      (''ousness'', ''ous'', Some hasPositiveMeasure),
      (''aliti'', ''al'', Some hasPositiveMeasure),
      (''iviti'', ''ive'', Some hasPositiveMeasure),
      (''biliti'', ''ble'', Some hasPositiveMeasure),
      (''fulli'', ''ful'', Some hasPositiveMeasure),
      (''logi'', ''log'', Some (\<lambda>stem. hasPositiveMeasure (slice_end word 3)))]"

function step2 :: "string \<Rightarrow> string" where
  "step2 word =
     (if endsWith word ''alli'' \<and> hasPositiveMeasure (replaceSuffix word ''alli'' [])
      then step2 (replaceSuffix word ''alli'' ''al'')
      else applyRuleList word (step2_rules word))"
  by pat_completeness auto
termination
  by (relation "measure length") (auto simp: replaceSuffix_def endsWith_def slice_end_def)

declare step2.simps [simp del]

definition step3 :: "string \<Rightarrow> string" where
  "step3 word =
     applyRuleList word
       [(''icate'', ''ic'', Some hasPositiveMeasure),
        (''ative'', [], Some hasPositiveMeasure),
        (''alize'', ''al'', Some hasPositiveMeasure),
        (''iciti'', ''ic'', Some hasPositiveMeasure),
        (''ical'', ''ic'', Some hasPositiveMeasure),
        (''ful'', [], Some hasPositiveMeasure),
        (''ness'', [], Some hasPositiveMeasure)]"

definition measureGt1 :: "string \<Rightarrow> bool" where
  "measureGt1 stem = (measure_m stem > 1)"

definition step4 :: "string \<Rightarrow> string" where
  "step4 word =
     applyRuleList word
       [(''al'', [], Some measureGt1),
        (''ance'', [], Some measureGt1),
        (''ence'', [], Some measureGt1),
        (''er'', [], Some measureGt1),
        (''ic'', [], Some measureGt1),
        (''able'', [], Some measureGt1),
        (''ible'', [], Some measureGt1),
        (''ant'', [], Some measureGt1),
        (''ement'', [], Some measureGt1),
        (''ment'', [], Some measureGt1),
        (''ent'', [], Some measureGt1),
        (''ion'', [], Some (\<lambda>stem. measure_m stem > 1 \<and> lastCharIn stem {CHR ''s'', CHR ''t''})),
        (''ou'', [], Some measureGt1),
        (''ism'', [], Some measureGt1),
        (''ate'', [], Some measureGt1),
        (''iti'', [], Some measureGt1),
        (''ous'', [], Some measureGt1),
        (''ive'', [], Some measureGt1),
        (''ize'', [], Some measureGt1)]"

definition step5a :: "string \<Rightarrow> string" where
  "step5a word =
     (if endsWith word ''e'' then
        (let stem = replaceSuffix word ''e'' [];
             m = measure_m stem
         in if m > 1 then stem
            else if m = 1 \<and> \<not> endsCVC stem then stem
            else word)
      else word)"

definition step5b :: "string \<Rightarrow> string" where
  "step5b word =
     applyRuleList word
       [(''ll'', ''l'', Some (\<lambda>stem. measure_m (slice_end word 1) > 1))]"

text \<open>
  \<open>stem(word)\<close>. The pool is read first, through the prototype chain, and whatever
  truthy value it holds is returned as it is; then words of at most two characters
  are returned unchanged; then the eight steps run in order.
\<close>

definition stem :: "string \<Rightarrow> js_value" where
  "stem word =
     (let w = toLowerCase word in
      if truthy (pool_get w) then pool_get w
      else if length w \<le> 2 then JStr w
      else JStr (step5b (step5a (step4 (step3 (step2 (step1c (step1b (step1a w)))))))))"

section \<open>Text preprocessing\<close>

definition STOPWORDS :: "string set" where
  "STOPWORDS = set
     [''i'', ''me'', ''my'', ''myself'', ''we'', ''our'', ''ours'', ''ourselves'', ''you'', ''you're'',
      ''you've'', ''you'll'', ''you'd'', ''your'', ''yours'', ''yourself'', ''yourselves'', ''he'',
      ''him'', ''his'', ''himself'', ''she'', ''she's'', ''her'', ''hers'', ''herself'', ''it'', ''it's'',
      ''its'', ''itself'', ''they'', ''them'', ''their'', ''theirs'', ''themselves'', ''what'', ''which'',
      ''who'', ''whom'', ''this'', ''that'', ''that'll'', ''these'', ''those'', ''am'', ''is'', ''are'',
      ''was'', ''were'', ''be'', ''been'', ''being'', ''have'', ''has'', ''had'', ''having'', ''do'',
      ''does'', ''did'', ''doing'', ''a'', ''an'', ''the'', ''and'', ''but'', ''if'', ''or'', ''because'',
      ''as'', ''until'', ''while'', ''of'', ''at'', ''by'', ''for'', ''with'', ''about'', ''against'',
      ''between'', ''into'', ''through'', ''during'', ''before'', ''after'', ''above'', ''below'',
      ''to'', ''from'', ''up'', ''down'', ''in'', ''out'', ''on'', ''off'', ''over'', ''under'', ''again'',
      ''further'', ''then'', ''once'', ''here'', ''there'', ''when'', ''where'', ''why'', ''how'', ''all'',
      ''both'', ''each'', ''few'', ''more'', ''most'', ''other'', ''some'', ''such'', ''no'', ''nor'',
      ''not'', ''only'', ''own'', ''same'', ''so'', ''than'', ''too'', ''very'', ''s'', ''t'', ''can'',
      ''will'', ''just'', ''don'', ''don't'', ''should'', ''should've'', ''now'', ''d'', ''ll'', ''m'',
      ''o'', ''re'', ''ve'', ''y'', ''ain'', ''aren'', ''aren't'', ''couldn'', ''couldn't'', ''didn'',
      ''didn't'', ''doesn'', ''doesn't'', ''hadn'', ''hadn't'', ''hasn'', ''hasn't'', ''haven'',
      ''haven't'', ''isn'', ''isn't'', ''ma'', ''mightn'', ''mightn't'', ''mustn'', ''mustn't'',
      ''needn'', ''needn't'', ''shan'', ''shan't'', ''shouldn'', ''shouldn't'', ''wasn'', ''wasn't'',
      ''weren'', ''weren't'', ''won'', ''won't'', ''wouldn'', ''wouldn't'']"

text \<open>
  The array \<open>words\<close> of \<open>stemming\<close> as the split and its filter leave it, before the
  stop words are filtered out: the words of the text.
\<close>

definition split_words :: "string \<Rightarrow> string list" where
  "split_words content =
     filter (\<lambda>word. length word > 0)
       (split_ws (toLowerCase (map (\<lambda>c. if isAlpha c then c else CHR '' '') content)))"

text \<open>
  \<open>stemming(content)\<close> up to its last line: the array \<open>words\<close> after the stop words are
  filtered out and the stemmer is mapped over the rest.
\<close>

definition stemming_words :: "string \<Rightarrow> js_value list" where
  "stemming_words content =
     (let processed = map (\<lambda>c. if isAlpha c then c else CHR '' '') content;
          processed = toLowerCase processed;
          words = filter (\<lambda>word. length word > 0) (split_ws processed)
      in map stem (filter (\<lambda>word. word \<notin> STOPWORDS) words))"

definition stemming :: "string \<Rightarrow> string" where
  "stemming content = join_sp (map js_toString (stemming_words content))"

section \<open>Numbers\<close>

text \<open>
  A JavaScript number is modelled as a real number, or \<open>NaN\<close>: rounding, overflow
  and the infinities of IEEE 754 are not modelled. \<open>NaN\<close> is kept because the program
  can produce it from well-formed numbers: reading an array past its end gives
  \<open>undefined\<close>, and arithmetic on \<open>undefined\<close> gives \<open>NaN\<close>, which every later
  operation hands on and every comparison answers with \<open>false\<close>.
\<close>

datatype jsnum = Num real | NaN

fun jadd :: "jsnum \<Rightarrow> jsnum \<Rightarrow> jsnum" where
  "jadd (Num a) (Num b) = Num (a + b)"
| "jadd _ _ = NaN"

fun jsub :: "jsnum \<Rightarrow> jsnum \<Rightarrow> jsnum" where
  "jsub (Num a) (Num b) = Num (a - b)"
| "jsub _ _ = NaN"

fun jmul :: "jsnum \<Rightarrow> jsnum \<Rightarrow> jsnum" where
  "jmul (Num a) (Num b) = Num (a * b)"
| "jmul _ _ = NaN"

text \<open>
  The program divides by \<open>norm\<close> only under the test \<open>sumSquares > 0\<close>, and by
  \<open>1 + Math.exp(-score)\<close>; a divisor \<open>0\<close>, whose quotient is not a real number, is
  mapped to \<open>NaN\<close>. In the same way \<open>Math.sqrt\<close> is taken under that test only.
\<close>

fun jdiv :: "jsnum \<Rightarrow> jsnum \<Rightarrow> jsnum" where
  "jdiv (Num a) (Num b) = (if b = 0 then NaN else Num (a / b))"
| "jdiv _ _ = NaN"

fun jneg :: "jsnum \<Rightarrow> jsnum" where
  "jneg (Num a) = Num (- a)"
| "jneg NaN = NaN"

fun jexp :: "jsnum \<Rightarrow> jsnum" where
  "jexp (Num a) = Num (exp a)"
| "jexp NaN = NaN"

fun jsqrt :: "jsnum \<Rightarrow> jsnum" where
  "jsqrt (Num a) = (if a < 0 then NaN else Num (sqrt a))"
| "jsqrt NaN = NaN"

fun jgt :: "jsnum \<Rightarrow> jsnum \<Rightarrow> bool" where
  "jgt (Num a) (Num b) = (a > b)"
| "jgt _ _ = False"

text \<open>\<open>xs[i]\<close> of an array of numbers, as an operand of arithmetic.\<close>

definition arrayAt :: "real list \<Rightarrow> nat \<Rightarrow> jsnum" where
  "arrayAt xs i = (if i < length xs then Num (xs ! i) else NaN)"

section \<open>The TF-IDF vectorizer\<close>

record SimpleTFIDF =
  tfidf_vocabulary :: "string list"
  idfValues :: "real list"
  vocabMap :: "string \<rightharpoonup> nat"

text \<open>
  The constructor: \<open>vocabulary.forEach((word, idx) => this.vocabMap.set(word, idx))\<close>.
\<close>

definition new_SimpleTFIDF :: "string list \<Rightarrow> real list \<Rightarrow> SimpleTFIDF" where
  "new_SimpleTFIDF vocabulary idfs =
     \<lparr>tfidf_vocabulary = vocabulary,
      idfValues = idfs,
      vocabMap =
        fold (\<lambda>(word, idx) m. m(word \<mapsto> idx)) (zip vocabulary [0..<length vocabulary]) Map.empty\<rparr>"

text \<open>
  \<open>termCounts\<close> is a \<open>Map\<close>: it keeps its keys in the order of their first insertion,
  and \<open>termCounts.set(token, (termCounts.get(token) || 0) + 1)\<close> is \<open>bump\<close>.
\<close>

fun bump :: "string \<Rightarrow> (string \<times> nat) list \<Rightarrow> (string \<times> nat) list" where
  "bump token [] = [(token, 1)]"
| "bump token ((k, n) # rest) =
     (if k = token then (k, n + 1) # rest else (k, n) # bump token rest)"

definition termCounts :: "string list \<Rightarrow> (string \<times> nat) list" where
  "termCounts tokens = fold bump tokens []"

text \<open>
  The tokens of \<open>transform\<close>: the string returned by \<open>stemming\<close>, split again at white
  space.
\<close>

definition transform_tokens :: "string \<Rightarrow> string list" where
  "transform_tokens text = filter (\<lambda>token. length token > 0) (split_ws (stemming text))"

text \<open>
  The body of \<open>termCounts.forEach\<close>, on the state \<open>(features, sumSquares)\<close>. The index
  comes from \<open>vocabMap\<close>, so it is below the length of \<open>features\<close>.
\<close>

fun accumulate :: "SimpleTFIDF \<Rightarrow> string \<times> nat \<Rightarrow> jsnum list \<times> jsnum \<Rightarrow> jsnum list \<times> jsnum" where
  "accumulate v (word, count) (features, sumSquares) =
     (case vocabMap v word of
        None \<Rightarrow> (features, sumSquares)
      | Some idx \<Rightarrow>
          (let val = jmul (Num (real count)) (arrayAt (idfValues v) idx)
           in (features[idx := val], jadd sumSquares (jmul val val))))"

definition raw_features :: "SimpleTFIDF \<Rightarrow> string \<Rightarrow> jsnum list \<times> jsnum" where
  "raw_features v text =
     fold (accumulate v) (termCounts (transform_tokens text))
       (replicate (length (tfidf_vocabulary v)) (Num 0), Num 0)"

definition transform :: "SimpleTFIDF \<Rightarrow> string \<Rightarrow> jsnum list" where
  "transform v text =
     (case raw_features v text of
        (features, sumSquares) \<Rightarrow>
          if jgt sumSquares (Num 0)
          then map (\<lambda>f. jdiv f (jsqrt sumSquares)) features
          else features)"

section \<open>The logistic regression\<close>

record LogisticRegression =
  coef :: "real list"
  lr_intercept :: real

record prediction_result =
  prediction :: nat
  confidence :: jsnum
  fakeProbability :: jsnum
  realProbability :: jsnum

text \<open>The loop of \<open>predict\<close>: \<open>score += features[i] * this.coef[i]\<close>.\<close>

definition score_of :: "LogisticRegression \<Rightarrow> jsnum list \<Rightarrow> jsnum" where
  "score_of m features =
     fold (\<lambda>i score. jadd score (jmul (features ! i) (arrayAt (coef m) i)))
       [0..<length features] (Num (lr_intercept m))"

definition predict :: "LogisticRegression \<Rightarrow> jsnum list \<Rightarrow> prediction_result" where
  "predict m features =
     (let score = score_of m features;
          probability = jdiv (Num 1) (jadd (Num 1) (jexp (jneg score)))
      in \<lparr>prediction = (if jgt probability (Num 0.5) then 1 else 0),
          confidence = (if jgt probability (Num 0.5) then probability
                        else jsub (Num 1) probability),
          fakeProbability = probability,
          realProbability = jsub (Num 1) probability\<rparr>)"

section \<open>Loading the model\<close>

text \<open>
  \<open>loadModel\<close> fetches and parses \<open>model/model_params.json\<close>. The outcome of these two
  awaited calls is its input here:
  \<^item> \<open>FetchError\<close>: one of them throws;
  \<^item> \<open>ParsedNoVocabulary\<close>: the parsed value holds no array under \<open>vocabulary\<close> (it is
    not an object, or the field is missing or is something else), so that
    \<open>vocabulary.forEach\<close> in the constructor of \<open>SimpleTFIDF\<close> throws a \<open>TypeError\<close>;
  \<^item> \<open>Parsed modelData\<close>: the parsed value holds an array of strings under
    \<open>vocabulary\<close>, arrays of numbers under \<open>idf_values\<close> and \<open>coefficients\<close>, of any
    lengths, and a number under \<open>intercept\<close>.
  A parsed value with an array under \<open>vocabulary\<close> and another field missing or of
  another type is not covered.
\<close>

record model_data =
  vocabulary :: "string list"
  idf_values :: "real list"
  coefficients :: "real list"
  intercept :: real

datatype fetch_result = FetchError | ParsedNoVocabulary | Parsed model_data

record model_components =
  vectorizer :: SimpleTFIDF
  model :: LogisticRegression

text \<open>
  \<open>None\<close> is the \<open>null\<close> returned from the \<open>catch\<close> block, which catches what the
  fetch, the parser and the two constructors throw.
\<close>

definition loadModel :: "fetch_result \<Rightarrow> model_components option" where
  "loadModel r =
     (case r of
        FetchError \<Rightarrow> None
      | ParsedNoVocabulary \<Rightarrow> None
      | Parsed modelData \<Rightarrow>
          Some \<lparr>vectorizer = new_SimpleTFIDF (vocabulary modelData) (idf_values modelData),
                model = \<lparr>coef = coefficients modelData, lr_intercept = intercept modelData\<rparr>\<rparr>)"

text \<open>
  Between \<open>transform\<close> and \<open>predict\<close>, \<open>analyzeArticle\<close> lists the top features: every
  feature with its index (and the word and the coefficient read at that index), those
  of them with \<open>f.val > 0\<close>, sorted by \<open>b.val - a.val\<close> (the sort is stable), the first
  twenty of them. \<open>NaN > 0\<close> is \<open>false\<close>, so what is left are positive numbers.
\<close>

definition positive_features :: "jsnum list \<Rightarrow> (nat \<times> real) list" where
  "positive_features features =
     concat (map (\<lambda>(idx, f). case f of Num x \<Rightarrow> (if x > 0 then [(idx, x)] else []) | NaN \<Rightarrow> [])
       (zip [0..<length features] features))"

definition topFeatures :: "jsnum list \<Rightarrow> (nat \<times> real) list" where
  "topFeatures features = take 20 (sort_key (\<lambda>(idx, val). - val) (positive_features features))"

text \<open>
  The listing prints \<open>f.coef.toFixed(8)\<close> for each of the top features. Where the model
  has no coefficient at the index, \<open>f.coef\<close> is \<open>undefined\<close> and this throws a
  \<open>TypeError\<close>; nothing else in the listing throws.
\<close>

definition debug_listing_throws :: "LogisticRegression \<Rightarrow> jsnum list \<Rightarrow> bool" where
  "debug_listing_throws m features =
     list_ex (\<lambda>(idx, val). length (coef m) \<le> idx) (topFeatures features)"

text \<open>
  The part of \<open>analyzeArticle\<close> after the article text has arrived. The model is
  loaded, and \<open>Failed to load model\<close> is thrown when \<open>loadModel\<close> gave \<open>null\<close>; the text
  is vectorized; the top features are listed; the text is classified and the
  prediction displayed. What is thrown on the way is caught at the end and its
  message displayed instead: \<open>Inl\<close> of the message. The logging after \<open>predict\<close> throws
  nothing, the intercept being a number.
\<close>

definition analyze :: "fetch_result \<Rightarrow> string \<Rightarrow> string + prediction_result" where
  "analyze r text =
     (case loadModel r of
        None \<Rightarrow> Inl ''Failed to load model''
      | Some modelComponents \<Rightarrow>
          (let features = transform (vectorizer modelComponents) text
           in if debug_listing_throws (model modelComponents) features
              then Inl ''Cannot read properties of undefined (reading 'toFixed')''
              else Inr (predict (model modelComponents) features)))"

section \<open>The recursions and the loop that are not bounded by their syntax\<close>

text \<open>
  \<open>isConsonant\<close> and \<open>step2\<close> call themselves, and the \<open>while\<close> loop of \<open>measure\<close> runs
  until \<open>indexOf\<close> answers \<open>-1\<close>. Here they are once more as the source has them, with
  no argument for their termination: a run that does not return is \<open>None\<close>.
\<close>

partial_function (option) isConsonant_rec :: "string \<Rightarrow> nat \<Rightarrow> bool option" where
  "isConsonant_rec word i =
     (case charAt word i of
        None \<Rightarrow> Some True
      | Some c \<Rightarrow>
          if c \<in> vowels then Some False
          else if c = CHR ''y'' then
            (if i = 0 then Some True
             else Option.bind (isConsonant_rec word (i - 1)) (\<lambda>b. Some (\<not> b)))
          else Some True)"

partial_function (option) vc_loop_rec :: "string \<Rightarrow> nat option \<Rightarrow> nat \<Rightarrow> nat option" where
  "vc_loop_rec cv pos count =
     (case pos of
        None \<Rightarrow> Some count
      | Some p \<Rightarrow> vc_loop_rec cv (indexOf cv ''vc'' (p + 1)) (count + 1))"

partial_function (option) step2_rec :: "string \<Rightarrow> string option" where
  "step2_rec word =
     (if endsWith word ''alli'' \<and> hasPositiveMeasure (replaceSuffix word ''alli'' [])
      then step2_rec (replaceSuffix word ''alli'' ''al'')
      else Some (applyRuleList word (step2_rules word)))"

text \<open>\<open>stem\<close> over the recursion of \<open>step2\<close> as it stands in the source.\<close>

definition stem_run :: "string \<Rightarrow> js_value option" where
  "stem_run word =
     (let w = toLowerCase word in
      if truthy (pool_get w) then Some (pool_get w)
      else if length w \<le> 2 then Some (JStr w)
      else Option.bind (step2_rec (step1c (step1b (step1a w))))
             (\<lambda>s. Some (JStr (step5b (step5a (step4 (step3 s)))))))"

section \<open>What the specification calls things\<close>

text \<open>
  The specification's validity of a model bundle: the three arrays have one length and
  the vocabulary is not empty.
\<close>

definition valid_bundle :: "model_data \<Rightarrow> bool" where
  "valid_bundle md =
     (length (idf_values md) = length (vocabulary md) \<and>
      length (coefficients md) = length (vocabulary md) \<and>
      vocabulary md \<noteq> [])"

definition sigmoid :: "real \<Rightarrow> real" where
  "sigmoid x = 1 / (1 + exp (- x))"

definition euclidean_norm :: "real list \<Rightarrow> real" where
  "euclidean_norm xs = sqrt (\<Sum>x\<leftarrow>xs. x\<^sup>2)"

text \<open>A word of lowercase letters \<open>a\<close> .. \<open>z\<close> only.\<close>

definition lowercase_word :: "string \<Rightarrow> bool" where
  "lowercase_word w = list_all (\<lambda>c. 97 \<le> (of_char c :: nat) \<and> (of_char c :: nat) \<le> 122) w"

section \<open>Lemmas on strings and on the stemmer\<close>

lemma toLowerCaseChar_idem: "toLowerCaseChar (toLowerCaseChar c) = toLowerCaseChar c"
  by (auto simp: toLowerCaseChar_def Let_def)

lemma toLowerCase_idem: "toLowerCase (toLowerCase s) = toLowerCase s"
  by (simp add: toLowerCase_def toLowerCaseChar_idem)

lemma toLowerCase_lower: "lowercase_word w \<Longrightarrow> toLowerCase w = w"
  by (induction w) (auto simp: lowercase_word_def toLowerCase_def toLowerCaseChar_def Let_def)

lemma pool_Some:
  "pool w = Some s \<Longrightarrow>
   (w, s) \<in> set [(''sky'', ''sky''), (''skies'', ''sky''), (''dying'', ''die''), (''lying'', ''lie''),
     (''tying'', ''tie''), (''news'', ''news''), (''innings'', ''inning''), (''inning'', ''inning''),
     (''outings'', ''outing''), (''outing'', ''outing''), (''cannings'', ''canning''),
     (''canning'', ''canning''), (''howe'', ''howe''), (''proceed'', ''proceed''),
     (''exceed'', ''exceed''), (''succeed'', ''succeed'')]"
  by (simp add: pool_def irregularForms_def split: if_splits)

lemma pool_get_short: "length w \<le> 2 \<Longrightarrow> pool_get w = JUndefined"
proof -
  assume "length w \<le> 2"
  then consider "w = []" | a where "w = [a]" | a b where "w = [a, b]"
    by (cases w; cases "tl w"; cases "tl (tl w)") auto
  then show ?thesis
    by cases (simp_all add: pool_get_def pool_def irregularForms_def object_prototype_names_def)
qed

lemma endsWith_rev: "endsWith w s \<longleftrightarrow> take (length s) (rev w) = rev s"
proof -
  have "take (length s) (rev w) = rev (drop (length w - length s) w)"
    by (simp add: take_rev)
  moreover have "drop (length w - length s) w = s \<Longrightarrow> length s \<le> length w"
  proof -
    assume a: "drop (length w - length s) w = s"
    have "length (drop (length w - length s) w) \<le> length w" by simp
    with a show ?thesis by simp
  qed
  ultimately show ?thesis
    unfolding endsWith_def by auto
qed

lemma endsWith_append: "endsWith w s \<Longrightarrow> w = slice_end w (length s) @ s"
  by (metis append_take_drop_id endsWith_def slice_end_def)

lemma step2_logi:
  "step2 (p @ ''logi'') =
     (if hasPositiveMeasure (p @ ''l'') then p @ ''log'' else p @ ''logi'')"
  by (subst step2.simps)
    (simp add: endsWith_rev step2_rules_def endsDoubleConsonant_def replaceSuffix_def slice_end_def)

lemma measure_m_Nil: "measure_m [] = 0"
  by code_simp

lemma containsVowel_nonempty: "containsVowel s \<Longrightarrow> s \<noteq> []"
  by (auto simp: containsVowel_def)

text \<open>
  A rule list keeps a word from becoming empty when each of its rules either puts
  something in the place of the suffix or asks of the stem what no empty stem has.
\<close>

lemma applyRuleList_nonempty:
  assumes "word \<noteq> []"
    and "\<And>suffix replacement condition stem.
           (suffix, replacement, condition) \<in> set rules \<Longrightarrow> holds condition stem \<Longrightarrow>
           stem @ replacement \<noteq> []"
  shows "applyRuleList word rules \<noteq> []"
  using assms
proof (induction rules)
  case Nil
  then show ?case by simp
next
  case (Cons r rules)
  obtain suffix replacement condition where r: "r = (suffix, replacement, condition)"
    by (cases r) auto
  have here: "\<And>stem. holds condition stem \<Longrightarrow> stem @ replacement \<noteq> []"
    using Cons.prems(2) [of suffix replacement condition] r by simp
  have rest: "applyRuleList word rules \<noteq> []"
    using Cons.IH [OF Cons.prems(1)] Cons.prems(2) by (meson list.set_intros(2))
  show ?case
    unfolding r applyRuleList.simps Let_def
    using here rest Cons.prems(1) by (simp del: append_is_Nil_conv)
qed

lemma step1a_nonempty: "length word \<ge> 2 \<Longrightarrow> step1a word \<noteq> []"
  by (auto simp: step1a_def replaceSuffix_def slice_end_def endsWith_def)

lemma ed_ing_loop_vowel: "ed_ing_loop word sfx = Some s \<Longrightarrow> containsVowel s"
  by (induction sfx) (auto split: if_splits)

lemma step1b_nonempty: "word \<noteq> [] \<Longrightarrow> step1b word \<noteq> []"
proof -
  assume w: "word \<noteq> []"
  show ?thesis
  proof (cases "ed_ing_loop word [''ed'', ''ing'']")
    case None
    with w show ?thesis
      by (simp add: step1b_def replaceSuffix_def Let_def)
  next
    case (Some s)
    then have "s \<noteq> []"
      using ed_ing_loop_vowel containsVowel_nonempty by blast
    then have "applyRuleList s (step1b_cleanup s) \<noteq> []"
      by (rule applyRuleList_nonempty)
        (auto simp: step1b_cleanup_def lastCharStr_def split: option.splits)
    with w Some show ?thesis
      by (simp add: step1b_def replaceSuffix_def Let_def)
  qed
qed

lemma step1c_nonempty: "word \<noteq> [] \<Longrightarrow> step1c word \<noteq> []"
  unfolding step1c_def by (rule applyRuleList_nonempty) auto

lemma step2_nonempty: "word \<noteq> [] \<Longrightarrow> step2 word \<noteq> []"
proof (induction word rule: step2.induct)
  case (1 word)
  show ?case
  proof (cases "endsWith word ''alli'' \<and> hasPositiveMeasure (replaceSuffix word ''alli'' [])")
    case True
    then have "replaceSuffix word ''alli'' ''al'' \<noteq> []"
      by (simp add: replaceSuffix_def)
    with 1 True show ?thesis
      by (subst step2.simps) simp
  next
    case False
    have "applyRuleList word (step2_rules word) \<noteq> []"
      using "1.prems" by (rule applyRuleList_nonempty) (auto simp: step2_rules_def)
    with False show ?thesis
      by (subst step2.simps) auto
  qed
qed

lemma step3_nonempty: "word \<noteq> [] \<Longrightarrow> step3 word \<noteq> []"
  unfolding step3_def
  by (rule applyRuleList_nonempty) (auto simp: hasPositiveMeasure_def measure_m_Nil)

lemma step4_nonempty: "word \<noteq> [] \<Longrightarrow> step4 word \<noteq> []"
  unfolding step4_def
  by (rule applyRuleList_nonempty) (auto simp: measureGt1_def measure_m_Nil)

lemma step5a_nonempty: "word \<noteq> [] \<Longrightarrow> step5a word \<noteq> []"
  using measure_m_Nil by (auto simp: step5a_def Let_def)

lemma step5b_nonempty: "word \<noteq> [] \<Longrightarrow> step5b word \<noteq> []"
  unfolding step5b_def by (rule applyRuleList_nonempty) auto

lemma stem_nonempty: "w \<noteq> [] \<Longrightarrow> stem w \<noteq> JStr []"
proof -
  assume w: "w \<noteq> []"
  let ?w = "toLowerCase w"
  have lw: "?w \<noteq> []" using w by (simp add: toLowerCase_def)
  have steps: "length ?w > 2 \<Longrightarrow>
      step5b (step5a (step4 (step3 (step2 (step1c (step1b (step1a ?w))))))) \<noteq> []"
    by (intro step5b_nonempty step5a_nonempty step4_nonempty step3_nonempty step2_nonempty
        step1c_nonempty step1b_nonempty step1a_nonempty) simp
  show ?thesis
  proof (cases "truthy (pool_get ?w)")
    case True
    then have "pool_get ?w \<noteq> JStr []" by auto
    with True show ?thesis by (simp add: stem_def Let_def)
  next
    case False
    with lw steps show ?thesis by (auto simp: stem_def Let_def)
  qed
qed

text \<open>The pieces of a split are made of the characters of the string that are not white space.\<close>

lemma split_ws_pieces:
  "p \<in> set (split_ws s) \<Longrightarrow> c \<in> set p \<Longrightarrow> c \<in> set s \<and> \<not> isSpace c"
proof (induction s arbitrary: p rule: split_ws.induct)
  case (1 s)
  show ?case
  proof (cases "dropWhile (\<lambda>c. \<not> isSpace c) s")
    case Nil
    have "split_ws s = [s]"
      by (subst split_ws.simps) (simp only: Nil list.case)
    with "1.prems" have "p = s" by simp
    moreover from Nil have "\<forall>x\<in>set s. \<not> isSpace x"
      by (simp add: dropWhile_eq_Nil_conv)
    ultimately show ?thesis using "1.prems" by simp
  next
    case (Cons d r)
    have sp: "split_ws s = takeWhile (\<lambda>c. \<not> isSpace c) s # split_ws (dropWhile isSpace r)"
      by (subst split_ws.simps) (simp only: Cons list.case)
    show ?thesis
    proof (cases "p = takeWhile (\<lambda>c. \<not> isSpace c) s")
      case True
      with "1.prems" show ?thesis
        using set_takeWhileD [of c "\<lambda>c. \<not> isSpace c" s] by simp
    next
      case False
      with sp "1.prems" have "p \<in> set (split_ws (dropWhile isSpace r))" by simp
      from "1.IH" [OF Cons this "1.prems"(2)]
      have "c \<in> set (dropWhile isSpace r)" and ns: "\<not> isSpace c" by simp_all
      then have "c \<in> set r" using set_dropWhileD by fastforce
      then have "c \<in> set (dropWhile (\<lambda>c. \<not> isSpace c) s)" using Cons by simp
      then have "c \<in> set s" using set_dropWhileD by fastforce
      with ns show ?thesis by simp
    qed
  qed
qed

lemma processed_chars:
  "c \<in> set (toLowerCase (map (\<lambda>c. if isAlpha c then c else CHR '' '') content)) \<Longrightarrow>
   (97 \<le> (of_char c :: nat) \<and> (of_char c :: nat) \<le> 122) \<or> isSpace c"
proof -
  assume "c \<in> set (toLowerCase (map (\<lambda>c. if isAlpha c then c else CHR '' '') content))"
  then obtain x where c: "c = toLowerCaseChar (if isAlpha x then x else CHR '' '')"
    by (auto simp: toLowerCase_def)
  show ?thesis
  proof (cases "isAlpha x")
    case True
    then show ?thesis unfolding c
      by (auto simp: toLowerCaseChar_def isAlpha_def Let_def)
  next
    case False
    then show ?thesis unfolding c
      by (simp add: toLowerCaseChar_def isSpace_def)
  qed
qed

text \<open>The three constructs that are not bounded by their syntax return on every input.\<close>

lemma isConsonant_rec_total: "isConsonant_rec word i = Some (isConsonant word i)"
proof (induction i)
  case 0
  show ?case
    by (subst isConsonant_rec.simps, subst isConsonant.simps) (auto split: option.splits)
next
  case (Suc i)
  show ?case
    by (subst isConsonant_rec.simps, subst isConsonant.simps) (auto simp: Suc split: option.splits)
qed

lemma vc_loop_rec_total: "vc_loop_rec cv pos count = Some (vc_loop cv pos count)"
proof (induction cv pos count rule: vc_loop.induct)
  case (1 cv pos count)
  show ?case
  proof (cases pos)
    case None
    then show ?thesis
      by (subst vc_loop_rec.simps, subst vc_loop.simps) simp
  next
    case (Some p)
    with 1 show ?thesis
      by (subst vc_loop_rec.simps, subst vc_loop.simps) simp
  qed
qed

lemma step2_rec_total: "step2_rec word = Some (step2 word)"
proof (induction word rule: step2.induct)
  case (1 word)
  then show ?case
    by (subst step2_rec.simps, subst step2.simps) auto
qed

lemma alli_shorter:
  "endsWith word ''alli'' \<Longrightarrow> length (replaceSuffix word ''alli'' ''al'') < length word"
  by (auto simp: replaceSuffix_def endsWith_def slice_end_def)

section \<open>Lemmas on the vectorizer and the classifier\<close>

lemma vocabMap_snoc:
  "vocabMap (new_SimpleTFIDF (xs @ [x]) idfs) w =
     (if w = x then Some (length xs) else vocabMap (new_SimpleTFIDF xs idfs) w)"
  by (simp add: new_SimpleTFIDF_def)

lemma vocabMap_Some:
  "vocabMap (new_SimpleTFIDF vocab idfs) w = Some i \<Longrightarrow> i < length vocab \<and> vocab ! i = w"
proof (induction vocab arbitrary: i rule: rev_induct)
  case Nil
  then show ?case by (simp add: new_SimpleTFIDF_def)
next
  case (snoc x xs)
  show ?case
  proof (cases "w = x")
    case True
    with snoc.prems have "i = length xs"
      by (simp add: vocabMap_snoc)
    with True show ?thesis by simp
  next
    case False
    with snoc.prems have "vocabMap (new_SimpleTFIDF xs idfs) w = Some i"
      by (simp add: vocabMap_snoc)
    from snoc.IH [OF this] show ?thesis
      by (simp add: nth_append)
  qed
qed

lemma vocabMap_None: "vocabMap (new_SimpleTFIDF vocab idfs) w = None \<longleftrightarrow> w \<notin> set vocab"
proof (induction vocab rule: rev_induct)
  case Nil
  then show ?case by (simp add: new_SimpleTFIDF_def)
next
  case (snoc x xs)
  then show ?case
    by (simp add: vocabMap_snoc)
qed

lemma vocabMap_distinct:
  assumes "distinct vocab" and "i < length vocab"
  shows "vocabMap (new_SimpleTFIDF vocab idfs) (vocab ! i) = Some i"
proof -
  have "vocabMap (new_SimpleTFIDF vocab idfs) (vocab ! i) \<noteq> None"
    using assms(2) by (simp add: vocabMap_None)
  then obtain j where j: "vocabMap (new_SimpleTFIDF vocab idfs) (vocab ! i) = Some j"
    by blast
  from vocabMap_Some [OF j] have "j < length vocab" and "vocab ! j = vocab ! i"
    by simp_all
  with assms have "j = i"
    using nth_eq_iff_index_eq by blast
  with j show ?thesis by simp
qed

lemma bump_keys: "set (map fst (bump t tc)) = insert t (set (map fst tc))"
  by (induction t tc rule: bump.induct) auto

lemma bump_distinct: "distinct (map fst tc) \<Longrightarrow> distinct (map fst (bump t tc))"
proof (induction t tc rule: bump.induct)
  case (1 token)
  then show ?case by simp
next
  case (2 token k n rest)
  have "set (map fst (bump token rest)) = insert token (set (map fst rest))"
    by (rule bump_keys)
  with 2 show ?case by auto
qed

lemma bump_positive: "\<forall>(w, c)\<in>set tc. c > 0 \<Longrightarrow> \<forall>(w, c)\<in>set (bump t tc). c > 0"
  by (induction t tc rule: bump.induct) auto

lemma termCounts_snoc: "termCounts (ts @ [t]) = bump t (termCounts ts)"
  by (simp add: termCounts_def)

lemma termCounts_props:
  "distinct (map fst (termCounts ts)) \<and> set (map fst (termCounts ts)) = set ts \<and>
   (\<forall>(w, c)\<in>set (termCounts ts). c > 0)"
proof (induction ts rule: rev_induct)
  case Nil
  then show ?case by (simp add: termCounts_def)
next
  case (snoc t ts)
  then show ?case
    using bump_distinct [of "termCounts ts" t] bump_keys [of t "termCounts ts"]
      bump_positive [of "termCounts ts" t]
    by (simp add: termCounts_snoc)
qed

lemma sum_sq_update:
  "i < length fs \<Longrightarrow> fs ! i = 0 \<Longrightarrow> (\<Sum>x\<leftarrow>fs[i := a]. x\<^sup>2) = (\<Sum>x\<leftarrow>fs. x\<^sup>2) + (a::real)\<^sup>2"
proof (induction fs arbitrary: i)
  case Nil
  then show ?case by simp
next
  case (Cons f fs)
  then show ?case by (cases i) auto
qed

lemma sum_sq_nonneg: "0 \<le> (\<Sum>x\<leftarrow>fs. (x::real)\<^sup>2)"
  by (induction fs) auto

lemma sum_sq_zero_iff: "(\<Sum>x\<leftarrow>fs. (x::real)\<^sup>2) = 0 \<longleftrightarrow> (\<forall>x\<in>set fs. x = 0)"
proof (induction fs)
  case Nil
  then show ?case by simp
next
  case (Cons f fs)
  have "0 \<le> f\<^sup>2" by simp
  with Cons sum_sq_nonneg [of fs] show ?case
    by (auto simp: add_nonneg_eq_0_iff)
qed

text \<open>
  The loop over \<open>termCounts\<close>, started on the zero vector: the features stay finite, the
  running \<open>sumSquares\<close> is the sum of their squares, an entry of \<open>termCounts\<close> that the
  vocabulary knows puts its count times its IDF weight at its index, and every other
  index keeps its zero.
\<close>

lemma fold_accumulate:
  assumes "distinct (map fst tc)" and "length vocab \<le> length idfs"
  shows "\<exists>fs. fold (accumulate (new_SimpleTFIDF vocab idfs)) tc
               (replicate (length vocab) (Num 0), Num 0) = (map Num fs, Num (\<Sum>x\<leftarrow>fs. x\<^sup>2)) \<and>
           length fs = length vocab \<and>
           (\<forall>(w, c)\<in>set tc. \<forall>i. vocabMap (new_SimpleTFIDF vocab idfs) w = Some i \<longrightarrow>
               fs ! i = real c * idfs ! i) \<and>
           (\<forall>i<length vocab. (\<forall>(w, c)\<in>set tc. vocabMap (new_SimpleTFIDF vocab idfs) w \<noteq> Some i) \<longrightarrow>
               fs ! i = 0)"
  using assms(1)
proof (induction tc rule: rev_induct)
  case Nil
  have "replicate (length vocab) (Num 0) = map Num (replicate (length vocab) 0)"
    by simp
  moreover have "(\<Sum>x\<leftarrow>replicate (length vocab) (0::real). x\<^sup>2) = 0"
    by (induction "length vocab") (simp_all add: sum_list_replicate)
  ultimately show ?case
    by (intro exI [of _ "replicate (length vocab) 0"]) simp
next
  case (snoc e tc)
  let ?v = "new_SimpleTFIDF vocab idfs"
  obtain w c where e: "e = (w, c)" by (cases e)
  from snoc.prems e have dist: "distinct (map fst tc)" and fresh: "w \<notin> fst ` set tc"
    by auto
  from snoc.IH [OF dist] obtain fs where
    run: "fold (accumulate ?v) tc (replicate (length vocab) (Num 0), Num 0)
          = (map Num fs, Num (\<Sum>x\<leftarrow>fs. x\<^sup>2))"
    and len: "length fs = length vocab"
    and hit: "\<forall>(w, c)\<in>set tc. \<forall>i. vocabMap ?v w = Some i \<longrightarrow> fs ! i = real c * idfs ! i"
    and miss: "\<forall>i<length vocab. (\<forall>(w, c)\<in>set tc. vocabMap ?v w \<noteq> Some i) \<longrightarrow> fs ! i = 0"
    by blast
  show ?case
  proof (cases "vocabMap ?v w")
    case None
    have "fold (accumulate ?v) (tc @ [e]) (replicate (length vocab) (Num 0), Num 0)
          = (map Num fs, Num (\<Sum>x\<leftarrow>fs. x\<^sup>2))"
      using run None e by simp
    moreover have "\<forall>(w, c)\<in>set (tc @ [e]). \<forall>i. vocabMap ?v w = Some i \<longrightarrow> fs ! i = real c * idfs ! i"
      using hit None e by auto
    moreover have "\<forall>i<length vocab. (\<forall>(w, c)\<in>set (tc @ [e]). vocabMap ?v w \<noteq> Some i) \<longrightarrow> fs ! i = 0"
      using miss by auto
    ultimately show ?thesis using len by blast
  next
    case (Some idx)
    from vocabMap_Some [OF Some] have idx: "idx < length vocab" and at: "vocab ! idx = w"
      by simp_all
    have others: "\<forall>(w', c')\<in>set tc. vocabMap ?v w' \<noteq> Some idx"
    proof (clarify)
      fix w' c'
      assume "(w', c') \<in> set tc" and "vocabMap ?v w' = Some idx"
      then have "w' = w" and "w' \<in> fst ` set tc"
        using vocabMap_Some at by (force+)
      with fresh show False by simp
    qed
    with miss idx have zero: "fs ! idx = 0" by blast
    let ?val = "real c * idfs ! idx"
    let ?fs = "fs[idx := ?val]"
    have "fold (accumulate ?v) (tc @ [e]) (replicate (length vocab) (Num 0), Num 0)
          = (map Num ?fs, Num ((\<Sum>x\<leftarrow>fs. x\<^sup>2) + ?val\<^sup>2))"
      using run Some e idx assms(2)
      by (simp add: arrayAt_def new_SimpleTFIDF_def map_update power2_eq_square)
    moreover have "(\<Sum>x\<leftarrow>?fs. x\<^sup>2) = (\<Sum>x\<leftarrow>fs. x\<^sup>2) + ?val\<^sup>2"
      using idx len zero by (simp add: sum_sq_update)
    moreover have "length ?fs = length vocab" using len by simp
    moreover have "\<forall>(w, c)\<in>set (tc @ [e]). \<forall>i. vocabMap ?v w = Some i \<longrightarrow> ?fs ! i = real c * idfs ! i"
    proof (clarify)
      fix w' c' i
      assume m: "(w', c') \<in> set (tc @ [e])" and i: "vocabMap ?v w' = Some i"
      show "?fs ! i = real c' * idfs ! i"
      proof (cases "(w', c') = e")
        case True
        with e i Some idx len show ?thesis by simp
      next
        case False
        with m have in_tc: "(w', c') \<in> set tc" by simp
        with others i have "i \<noteq> idx" by auto
        with hit in_tc i show ?thesis by auto
      qed
    qed
    moreover have "\<forall>i<length vocab. (\<forall>(w, c)\<in>set (tc @ [e]). vocabMap ?v w \<noteq> Some i) \<longrightarrow> ?fs ! i = 0"
    proof (clarify)
      fix i
      assume i: "i < length vocab" and no: "\<forall>(w, c)\<in>set (tc @ [e]). vocabMap ?v w \<noteq> Some i"
      from no e Some have "i \<noteq> idx" by auto
      moreover from no have "\<forall>(w, c)\<in>set tc. vocabMap ?v w \<noteq> Some i" by auto
      ultimately show "?fs ! i = 0" using miss i by simp
    qed
    ultimately show ?thesis by (intro exI [of _ ?fs]) simp
  qed
qed

lemma raw_features_shape:
  assumes "length vocab \<le> length idfs"
  shows "\<exists>raw. raw_features (new_SimpleTFIDF vocab idfs) text = (map Num raw, Num (\<Sum>x\<leftarrow>raw. x\<^sup>2)) \<and>
           length raw = length vocab \<and>
           ((\<exists>x\<in>set raw. x \<noteq> 0) \<longleftrightarrow>
            (\<exists>t\<in>set (transform_tokens text). \<exists>i.
               vocabMap (new_SimpleTFIDF vocab idfs) t = Some i \<and> idfs ! i \<noteq> 0))"
proof -
  let ?v = "new_SimpleTFIDF vocab idfs"
  let ?tc = "termCounts (transform_tokens text)"
  have dist: "distinct (map fst ?tc)" and keys: "set (map fst ?tc) = set (transform_tokens text)"
    and pos: "\<forall>(w, c)\<in>set ?tc. c > 0"
    using termCounts_props [of "transform_tokens text"] by simp_all
  from fold_accumulate [OF dist assms] obtain raw where
    run: "fold (accumulate ?v) ?tc (replicate (length vocab) (Num 0), Num 0)
          = (map Num raw, Num (\<Sum>x\<leftarrow>raw. x\<^sup>2))"
    and len: "length raw = length vocab"
    and hit: "\<forall>(w, c)\<in>set ?tc. \<forall>i. vocabMap ?v w = Some i \<longrightarrow> raw ! i = real c * idfs ! i"
    and miss: "\<forall>i<length vocab. (\<forall>(w, c)\<in>set ?tc. vocabMap ?v w \<noteq> Some i) \<longrightarrow> raw ! i = 0"
    by blast
  have shape: "raw_features ?v text = (map Num raw, Num (\<Sum>x\<leftarrow>raw. x\<^sup>2))"
    using run by (simp add: raw_features_def new_SimpleTFIDF_def)
  have "(\<exists>x\<in>set raw. x \<noteq> 0) \<longleftrightarrow>
        (\<exists>t\<in>set (transform_tokens text). \<exists>i. vocabMap ?v t = Some i \<and> idfs ! i \<noteq> 0)"
  proof
    assume "\<exists>x\<in>set raw. x \<noteq> 0"
    then obtain i where i: "i < length raw" and nz: "raw ! i \<noteq> 0"
      by (auto simp: in_set_conv_nth)
    with miss len obtain w c where wc: "(w, c) \<in> set ?tc" and m: "vocabMap ?v w = Some i"
      by fastforce
    with hit have "raw ! i = real c * idfs ! i" by blast
    with nz have "idfs ! i \<noteq> 0" by auto
    moreover from wc keys have "w \<in> set (transform_tokens text)" by force
    ultimately show "\<exists>t\<in>set (transform_tokens text). \<exists>i. vocabMap ?v t = Some i \<and> idfs ! i \<noteq> 0"
      using m by blast
  next
    assume "\<exists>t\<in>set (transform_tokens text). \<exists>i. vocabMap ?v t = Some i \<and> idfs ! i \<noteq> 0"
    then obtain t i where t: "t \<in> set (transform_tokens text)"
      and m: "vocabMap ?v t = Some i" and nz: "idfs ! i \<noteq> 0"
      by blast
    from t keys obtain c where wc: "(t, c) \<in> set ?tc" by force
    with pos have "c > 0" by blast
    moreover from hit wc m have "raw ! i = real c * idfs ! i" by blast
    ultimately have "raw ! i \<noteq> 0" using nz by simp
    moreover from vocabMap_Some [OF m] len have "i < length raw" by simp
    ultimately show "\<exists>x\<in>set raw. x \<noteq> 0" using nth_mem by blast
  qed
  with shape len show ?thesis by blast
qed

lemma sum_sq_divide: "(\<Sum>x\<leftarrow>xs. (x / d)\<^sup>2) = (\<Sum>x\<leftarrow>xs. x\<^sup>2) / (d::real)\<^sup>2"
  by (induction xs) (simp_all add: power_divide add_divide_distrib)

lemma normalised_norm:
  assumes "euclidean_norm raw > 0"
  shows "euclidean_norm (map (\<lambda>x. x / euclidean_norm raw) raw) = 1"
proof -
  let ?ss = "\<Sum>x\<leftarrow>raw. x\<^sup>2"
  have n: "(euclidean_norm raw)\<^sup>2 = ?ss"
    by (simp add: euclidean_norm_def sum_sq_nonneg)
  have "?ss > 0" using assms by (simp add: euclidean_norm_def)
  have "(\<Sum>x\<leftarrow>map (\<lambda>x. x / euclidean_norm raw) raw. x\<^sup>2) = ?ss / (euclidean_norm raw)\<^sup>2"
    by (simp add: comp_def sum_sq_divide)
  also have "\<dots> = 1" using n \<open>?ss > 0\<close> by simp
  finally show ?thesis by (simp add: euclidean_norm_def)
qed

lemma euclidean_norm_pos_iff: "euclidean_norm raw > 0 \<longleftrightarrow> (\<exists>x\<in>set raw. x \<noteq> 0)"
proof -
  have "(\<Sum>x\<leftarrow>raw. x\<^sup>2) > 0 \<longleftrightarrow> (\<Sum>x\<leftarrow>raw. x\<^sup>2) \<noteq> 0"
    using sum_sq_nonneg [of raw] by linarith
  then show ?thesis
    by (simp add: euclidean_norm_def sum_sq_zero_iff)
qed

lemma score_of_finite:
  assumes "length fs \<le> length (coef m)"
  shows "score_of m (map Num fs) = Num (lr_intercept m + (\<Sum>i<length fs. fs ! i * coef m ! i))"
proof -
  have "k \<le> length fs \<Longrightarrow>
        fold (\<lambda>i score. jadd score (jmul (map Num fs ! i) (arrayAt (coef m) i))) [0..<k] (Num b)
        = Num (b + (\<Sum>i<k. fs ! i * coef m ! i))" for k b
  proof (induction k)
    case 0
    then show ?case by simp
  next
    case (Suc k)
    then show ?case using assms by (simp add: arrayAt_def)
  qed
  from this [of "length fs"] show ?thesis
    by (simp add: score_of_def)
qed

lemma exp_denominator: "1 + exp (x::real) \<noteq> 0"
  using exp_gt_zero [of x] by linarith

lemma predict_finite:
  assumes "length fs \<le> length (coef m)"
  shows "predict m (map Num fs) =
     (let p = sigmoid (lr_intercept m + (\<Sum>i<length fs. fs ! i * coef m ! i))
      in \<lparr>prediction = (if p > 0.5 then 1 else 0),
          confidence = Num (max p (1 - p)),
          fakeProbability = Num p,
          realProbability = Num (1 - p)\<rparr>)"
  using assms
  by (auto simp: predict_def score_of_finite sigmoid_def exp_denominator Let_def max_def)

lemma zero_tokens: "stemming_words text = [] \<Longrightarrow> transform_tokens text = []"
  by (simp add: transform_tokens_def stemming_def split_ws.simps)

lemma transform_zero_tokens:
  "transform_tokens text = [] \<Longrightarrow>
   transform v text = replicate (length (tfidf_vocabulary v)) (Num 0)"
  by (simp add: transform_def raw_features_def termCounts_def)

lemma split_words_lowercase: "w \<in> set (split_words content) \<Longrightarrow> w \<noteq> [] \<and> lowercase_word w"
proof -
  assume "w \<in> set (split_words content)"
  then have ne: "w \<noteq> []"
    and w: "w \<in> set (split_ws (toLowerCase (map (\<lambda>c. if isAlpha c then c else CHR '' '') content)))"
    by (simp_all add: split_words_def)
  have "lowercase_word w"
    unfolding lowercase_word_def list_all_iff
  proof
    fix c assume "c \<in> set w"
    from split_ws_pieces [OF w this] processed_chars [of c content]
    show "97 \<le> (of_char c :: nat) \<and> (of_char c :: nat) \<le> 122" by blast
  qed
  with ne show ?thesis by simp
qed

lemma stemming_words_split:
  "stemming_words content = map stem (filter (\<lambda>w. w \<notin> STOPWORDS) (split_words content))"
  by (simp add: stemming_words_def split_words_def Let_def)

lemma fold_accumulate_length:
  "length (fst (fold (accumulate v) tc (features, sumSquares))) = length features"
proof (induction tc arbitrary: features sumSquares)
  case Nil
  then show ?case by simp
next
  case (Cons e tc)
  obtain w c where e: "e = (w, c)" by (cases e)
  show ?case
    by (cases "vocabMap v w") (simp_all add: e Cons Let_def)
qed

lemma transform_length: "length (transform v text) = length (tfidf_vocabulary v)"
proof -
  obtain features sumSquares where r: "raw_features v text = (features, sumSquares)"
    by (cases "raw_features v text")
  have "length (fst (raw_features v text)) = length (tfidf_vocabulary v)"
    unfolding raw_features_def by (simp add: fold_accumulate_length)
  with r show ?thesis
    by (simp add: transform_def)
qed

lemma topFeatures_index: "(idx, val) \<in> set (topFeatures features) \<Longrightarrow> idx < length features"
proof -
  assume "(idx, val) \<in> set (topFeatures features)"
  then have "(idx, val) \<in> set (positive_features features)"
    unfolding topFeatures_def using in_set_takeD by fastforce
  then obtain f where "(idx, f) \<in> set (zip [0..<length features] features)"
    by (auto simp: positive_features_def split: jsnum.splits if_splits)
  then have "idx \<in> set [0..<length features]"
    by (rule set_zip_leftD)
  then show ?thesis by simp
qed

lemma debug_listing_quiet:
  "length features \<le> length (coef m) \<Longrightarrow> \<not> debug_listing_throws m features"
  using topFeatures_index [of _ _ features]
  by (fastforce simp: debug_listing_throws_def list_ex_iff)

section \<open>The claims\<close>

subsection \<open>C1: the tokens of the preprocessing\<close>

text \<open>
  Claim C1 says that no token produced by \<open>stemming\<close> is a stop word and that none is
  the empty string. The stop words are filtered out before the stemmer runs, and a
  stem can be a stop word again: \<open>others\<close> is no stop word, its stem \<open>other\<close> is one.
\<close>

theorem stemming_emits_stopword:
  "stemming_words ''others'' = [JStr ''other''] \<and> ''other'' \<in> STOPWORDS \<and> ''others'' \<notin> STOPWORDS"
  by code_simp

text \<open>
  Claim C1, amended: the tokens produced by \<open>stemming\<close> are the stems, in their order,
  of those words of the text that are not in the stop word set, so that a stop word
  of the text gives no token. The words of the text are non-empty words of lowercase
  letters; every token is the stem of one of them that is no stop word, and no token
  is the empty string. A token can still be equal to a stop word.
\<close>

theorem stemming_tokens:
  "stemming_words content = map stem (filter (\<lambda>w. w \<notin> STOPWORDS) (split_words content)) \<and>
   (\<forall>w\<in>set (split_words content). w \<noteq> [] \<and> lowercase_word w) \<and>
   (\<forall>t\<in>set (stemming_words content).
      t \<noteq> JStr [] \<and> (\<exists>w\<in>set (split_words content). w \<notin> STOPWORDS \<and> t = stem w))"
proof (intro conjI)
  show "stemming_words content = map stem (filter (\<lambda>w. w \<notin> STOPWORDS) (split_words content))"
    by (rule stemming_words_split)
  show "\<forall>w\<in>set (split_words content). w \<noteq> [] \<and> lowercase_word w"
    using split_words_lowercase by blast
  show "\<forall>t\<in>set (stemming_words content).
      t \<noteq> JStr [] \<and> (\<exists>w\<in>set (split_words content). w \<notin> STOPWORDS \<and> t = stem w)"
  proof
    fix t assume "t \<in> set (stemming_words content)"
    then obtain w where w: "w \<in> set (split_words content)" "w \<notin> STOPWORDS" "t = stem w"
      by (auto simp: stemming_words_split)
    from split_words_lowercase [OF w(1)] have "w \<noteq> []" by simp
    then have "t \<noteq> JStr []" using stem_nonempty w(3) by simp
    with w show "t \<noteq> JStr [] \<and> (\<exists>w\<in>set (split_words content). w \<notin> STOPWORDS \<and> t = stem w)"
      by blast
  qed
qed

text \<open>
  In \<open>The others\<close> the stop word \<open>the\<close> gives no token, and the one token is the stem
  of \<open>others\<close>.
\<close>

theorem stemming_tokens_witness:
  "split_words ''The others'' = [''the'', ''others''] \<and>
   ''the'' \<in> STOPWORDS \<and>
   stemming_words ''The others'' = [stem ''others''] \<and>
   stem ''others'' = JStr ''other'' \<and>
   lowercase_word ''others''"
proof -
  have s: "split_words ''The others'' = [''the'', ''others'']" by code_simp
  have a: "''the'' \<in> STOPWORDS" by code_simp
  have b: "''others'' \<notin> STOPWORDS" by code_simp
  have e: "stem ''others'' = JStr ''other''" by code_simp
  note T = stemming_tokens [of "''The others''"]
  have f: "filter (\<lambda>w. w \<notin> STOPWORDS) [''the'', ''others''] = [''others'']"
    by (simp only: filter.simps a b not_True_eq_False not_False_eq_True if_True if_False)
  from T have "stemming_words ''The others'' =
      map stem (filter (\<lambda>w. w \<notin> STOPWORDS) (split_words ''The others''))"
    by (rule conjunct1)
  then have t: "stemming_words ''The others'' = [stem ''others'']"
    by (simp only: s f list.map)
  from T have "\<forall>w\<in>set (split_words ''The others''). w \<noteq> [] \<and> lowercase_word w"
    by (rule conjunct1 [OF conjunct2])
  then have l: "lowercase_word ''others''"
    by (simp only: s list.set ball_simps insert_iff empty_iff)
  from s a t e l show ?thesis by blast
qed

subsection \<open>C2: loading a model bundle\<close>

text \<open>
  Claim C2 says that a bundle whose arrays differ in length, or whose vocabulary is
  empty, is rejected while it is loaded, so that no inference runs on it. \<open>loadModel\<close>
  compares no lengths: a vocabulary of one term with no IDF value and no coefficient
  is accepted, and the classification of the text \<open>fake\<close> runs on it and ends in
  \<open>NaN\<close>; an empty vocabulary is accepted as well.
\<close>

theorem loadModel_accepts_invalid_bundle:
  "\<not> valid_bundle \<lparr>vocabulary = [''fake''], idf_values = [], coefficients = [], intercept = 0\<rparr> \<and>
   loadModel (Parsed \<lparr>vocabulary = [''fake''], idf_values = [], coefficients = [], intercept = 0\<rparr>)
     = Some \<lparr>vectorizer = new_SimpleTFIDF [''fake''] [], model = \<lparr>coef = [], lr_intercept = 0\<rparr>\<rparr> \<and>
   analyze (Parsed \<lparr>vocabulary = [''fake''], idf_values = [], coefficients = [], intercept = 0\<rparr>) ''fake''
     = Inr \<lparr>prediction = 0, confidence = NaN, fakeProbability = NaN, realProbability = NaN\<rparr> \<and>
   \<not> valid_bundle \<lparr>vocabulary = [], idf_values = [], coefficients = [], intercept = 0\<rparr> \<and>
   loadModel (Parsed \<lparr>vocabulary = [], idf_values = [], coefficients = [], intercept = 0\<rparr>)
     = Some \<lparr>vectorizer = new_SimpleTFIDF [] [], model = \<lparr>coef = [], lr_intercept = 0\<rparr>\<rparr>"
proof -
  have t: "transform_tokens ''fake'' = [''fake'']" by code_simp
  have f: "transform (new_SimpleTFIDF [''fake''] []) ''fake'' = [NaN]"
    by (simp add: transform_def raw_features_def t termCounts_def new_SimpleTFIDF_def arrayAt_def)
  have d: "\<not> debug_listing_throws \<lparr>coef = [], lr_intercept = 0\<rparr> [NaN]"
    by (simp add: debug_listing_throws_def topFeatures_def positive_features_def)
  show ?thesis
    by (simp add: valid_bundle_def loadModel_def analyze_def f d predict_def score_of_def arrayAt_def)
qed

text \<open>
  Claim C2, amended: nothing validates the lengths of the arrays of a bundle or asks
  for a vocabulary that is not empty. \<open>loadModel\<close> gives \<open>null\<close> exactly when fetching or
  parsing throws or the parsed value has no array under \<open>vocabulary\<close>; every other
  bundle it makes into a vectorizer and a model as it is, whatever the lengths of its
  arrays. On such a bundle the text is vectorized, and then classified unless the
  listing of the top features throws before, which it does exactly when one of the
  features listed has no coefficient, and never when there are at least as many
  coefficients as terms in the vocabulary.
\<close>

theorem loadModel_never_rejects:
  "(loadModel r = None \<longleftrightarrow> r = FetchError \<or> r = ParsedNoVocabulary) \<and>
   loadModel (Parsed md) =
     Some \<lparr>vectorizer = new_SimpleTFIDF (vocabulary md) (idf_values md),
           model = \<lparr>coef = coefficients md, lr_intercept = intercept md\<rparr>\<rparr> \<and>
   analyze (Parsed md) text =
     (if debug_listing_throws \<lparr>coef = coefficients md, lr_intercept = intercept md\<rparr>
           (transform (new_SimpleTFIDF (vocabulary md) (idf_values md)) text)
      then Inl ''Cannot read properties of undefined (reading 'toFixed')''
      else Inr (predict \<lparr>coef = coefficients md, lr_intercept = intercept md\<rparr>
                  (transform (new_SimpleTFIDF (vocabulary md) (idf_values md)) text))) \<and>
   (length (vocabulary md) \<le> length (coefficients md) \<longrightarrow>
      analyze (Parsed md) text =
        Inr (predict \<lparr>coef = coefficients md, lr_intercept = intercept md\<rparr>
               (transform (new_SimpleTFIDF (vocabulary md) (idf_values md)) text)))"
proof -
  let ?m = "\<lparr>coef = coefficients md, lr_intercept = intercept md\<rparr>"
  let ?v = "new_SimpleTFIDF (vocabulary md) (idf_values md)"
  have "length (vocabulary md) \<le> length (coefficients md) \<Longrightarrow>
        \<not> debug_listing_throws ?m (transform ?v text)"
    by (rule debug_listing_quiet) (simp add: transform_length new_SimpleTFIDF_def)
  then show ?thesis
    by (cases r) (auto simp: loadModel_def analyze_def Let_def)
qed

text \<open>
  An empty vocabulary with one IDF value and two coefficients is classified; one term
  with its IDF value and no coefficient is loaded and vectorized, and the listing
  throws before \<open>predict\<close> is called.
\<close>

theorem loadModel_never_rejects_witness:
  "length (vocabulary \<lparr>vocabulary = [], idf_values = [1], coefficients = [1, 2], intercept = 0\<rparr>)
     \<le> length (coefficients \<lparr>vocabulary = [], idf_values = [1], coefficients = [1, 2], intercept = 0\<rparr>) \<and>
   analyze (Parsed \<lparr>vocabulary = [], idf_values = [1], coefficients = [1, 2], intercept = 0\<rparr>) ''fake'' =
     Inr (predict \<lparr>coef = [1, 2], lr_intercept = 0\<rparr> (transform (new_SimpleTFIDF [] [1]) ''fake'')) \<and>
   analyze (Parsed \<lparr>vocabulary = [''fake''], idf_values = [1], coefficients = [], intercept = 0\<rparr>) ''fake'' =
     Inl ''Cannot read properties of undefined (reading 'toFixed')''"
proof -
  let ?a = "\<lparr>vocabulary = [], idf_values = [1], coefficients = [1, 2], intercept = 0\<rparr>"
  let ?b = "\<lparr>vocabulary = [''fake''], idf_values = [1], coefficients = [], intercept = 0\<rparr>"
  have l: "length (vocabulary ?a) \<le> length (coefficients ?a)" by simp
  have t: "transform_tokens ''fake'' = [''fake'']" by code_simp
  have f: "transform (new_SimpleTFIDF [''fake''] [1]) ''fake'' = [Num 1]"
    by (simp add: transform_def raw_features_def t termCounts_def new_SimpleTFIDF_def arrayAt_def
        Let_def)
  have d: "debug_listing_throws \<lparr>coef = [], lr_intercept = 0\<rparr> [Num 1]"
    by (simp add: debug_listing_throws_def topFeatures_def positive_features_def)
  have "length (vocabulary ?a) \<le> length (coefficients ?a) \<longrightarrow>
      analyze (Parsed ?a) ''fake'' =
        Inr (predict \<lparr>coef = coefficients ?a, lr_intercept = intercept ?a\<rparr>
               (transform (new_SimpleTFIDF (vocabulary ?a) (idf_values ?a)) ''fake''))"
    by (rule conjunct2 [OF conjunct2 [OF conjunct2
          [OF loadModel_never_rejects [of FetchError ?a "''fake''"]]]])
  with l have "analyze (Parsed ?a) ''fake'' =
        Inr (predict \<lparr>coef = coefficients ?a, lr_intercept = intercept ?a\<rparr>
               (transform (new_SimpleTFIDF (vocabulary ?a) (idf_values ?a)) ''fake''))"
    by (rule rev_mp)
  then have 1: "analyze (Parsed ?a) ''fake'' =
      Inr (predict \<lparr>coef = [1, 2], lr_intercept = 0\<rparr> (transform (new_SimpleTFIDF [] [1]) ''fake''))"
    by simp
  have "analyze (Parsed ?b) ''fake'' =
     (if debug_listing_throws \<lparr>coef = coefficients ?b, lr_intercept = intercept ?b\<rparr>
           (transform (new_SimpleTFIDF (vocabulary ?b) (idf_values ?b)) ''fake'')
      then Inl ''Cannot read properties of undefined (reading 'toFixed')''
      else Inr (predict \<lparr>coef = coefficients ?b, lr_intercept = intercept ?b\<rparr>
                  (transform (new_SimpleTFIDF (vocabulary ?b) (idf_values ?b)) ''fake'')))"
    by (rule conjunct1 [OF conjunct2 [OF conjunct2
          [OF loadModel_never_rejects [of FetchError ?b "''fake''"]]]])
  then have 2: "analyze (Parsed ?b) ''fake'' =
      Inl ''Cannot read properties of undefined (reading 'toFixed')''"
    by (simp add: f d)
  from l 1 2 show ?thesis by blast
qed

subsection \<open>C3: an input without tokens\<close>

text \<open>
  Claim C3: when the preprocessing of a text leaves no token, as it does for the empty
  string, \<open>transform\<close> returns the zero vector of the length of the vocabulary, and
  \<open>predict\<close> on that vector returns the probability \<open>sigmoid(intercept)\<close>. The model has
  one coefficient for each term of the vocabulary. Both functions return plain values:
  nothing is raised.
\<close>

theorem empty_input_defined:
  assumes "stemming_words text = []"
    and "length (coef m) = length (tfidf_vocabulary v)"
  shows "transform v text = replicate (length (tfidf_vocabulary v)) (Num 0) \<and>
         fakeProbability (predict m (transform v text)) = Num (sigmoid (lr_intercept m)) \<and>
         stemming_words [] = []"
proof -
  let ?n = "length (tfidf_vocabulary v)"
  have z: "transform v text = replicate ?n (Num 0)"
    using assms(1) by (simp add: zero_tokens transform_zero_tokens)
  have "replicate ?n (Num 0) = map Num (replicate ?n 0)" by simp
  moreover have "predict m (map Num (replicate ?n 0)) =
     (let p = sigmoid (lr_intercept m + (\<Sum>i<length (replicate ?n (0::real)). replicate ?n 0 ! i * coef m ! i))
      in \<lparr>prediction = (if p > 0.5 then 1 else 0), confidence = Num (max p (1 - p)),
          fakeProbability = Num p, realProbability = Num (1 - p)\<rparr>)"
    by (rule predict_finite) (simp add: assms(2))
  ultimately have "fakeProbability (predict m (replicate ?n (Num 0))) = Num (sigmoid (lr_intercept m))"
    by (simp add: Let_def)
  moreover have "stemming_words [] = []" by code_simp
  ultimately show ?thesis using z by simp
qed

theorem empty_input_defined_witness:
  "stemming_words '' '' = [] \<and>
   transform (new_SimpleTFIDF [''fake''] [2]) '' '' = [Num 0] \<and>
   fakeProbability (predict \<lparr>coef = [3], lr_intercept = 1\<rparr> (transform (new_SimpleTFIDF [''fake''] [2]) '' ''))
     = Num (sigmoid 1)"
proof -
  have e: "stemming_words '' '' = []" by code_simp
  have l: "length (coef \<lparr>coef = [3], lr_intercept = 1\<rparr>)
           = length (tfidf_vocabulary (new_SimpleTFIDF [''fake''] [2]))"
    by (simp add: new_SimpleTFIDF_def)
  have n: "replicate (length (tfidf_vocabulary (new_SimpleTFIDF [''fake''] [2]))) (Num 0) = [Num 0]"
    by (simp add: new_SimpleTFIDF_def)
  from empty_input_defined [OF e l, unfolded n LogisticRegression.select_convs] e
  show ?thesis by blast
qed

subsection \<open>C4: the prediction\<close>

text \<open>
  Claim C4: for a feature vector and as many coefficients, \<open>predict\<close> returns the
  probability \<open>1 / (1 + exp (- (intercept + \<Sum> features[i] * coefficients[i])))\<close>, the
  label 1 exactly when this probability is above 0.5 and 0 otherwise, and as
  confidence the larger of the probability and one minus it.
\<close>

theorem predict_formula:
  assumes "length (coef m) = length fs"
  shows "predict m (map Num fs) =
     (let p = 1 / (1 + exp (- (lr_intercept m + (\<Sum>i<length fs. fs ! i * coef m ! i))))
      in \<lparr>prediction = (if p > 0.5 then 1 else 0),
          confidence = Num (max p (1 - p)),
          fakeProbability = Num p,
          realProbability = Num (1 - p)\<rparr>)"
  using predict_finite [of fs m] assms by (simp add: sigmoid_def)

theorem predict_formula_witness:
  "predict \<lparr>coef = [2], lr_intercept = 1\<rparr> (map Num [3]) =
     \<lparr>prediction = (if 1 / (1 + exp (- 7)) > (0.5::real) then 1 else 0),
      confidence = Num (max (1 / (1 + exp (- 7))) (1 - 1 / (1 + exp (- 7)))),
      fakeProbability = Num (1 / (1 + exp (- 7))),
      realProbability = Num (1 - 1 / (1 + exp (- 7)))\<rparr>"
  using predict_formula [of "\<lparr>coef = [2], lr_intercept = 1\<rparr>" "[3]"]
  by (simp add: Let_def)

subsection \<open>C5: the norm of the feature vector\<close>

text \<open>
  Claim C5 says that, for a valid bundle, the vector of \<open>transform\<close> has norm 1 as
  soon as a token of the text is in the vocabulary. A term whose IDF weight is 0 adds
  nothing to \<open>sumSquares\<close>: with the vocabulary \<open>fake\<close> of weight 0 the text \<open>fake\<close> has
  its token in the vocabulary and yet the zero vector, of norm 0.
\<close>

theorem transform_zero_idf:
  "valid_bundle \<lparr>vocabulary = [''fake''], idf_values = [0], coefficients = [1], intercept = 0\<rparr> \<and>
   ''fake'' \<in> set (transform_tokens ''fake'') \<and>
   ''fake'' \<in> set (vocabulary \<lparr>vocabulary = [''fake''], idf_values = [0], coefficients = [1], intercept = 0\<rparr>) \<and>
   transform (new_SimpleTFIDF [''fake''] [0]) ''fake'' = map Num [0] \<and>
   euclidean_norm [0] = 0"
proof -
  have t: "transform_tokens ''fake'' = [''fake'']" by code_simp
  have "transform (new_SimpleTFIDF [''fake''] [0]) ''fake'' = [Num 0]"
    by (simp add: transform_def raw_features_def t termCounts_def new_SimpleTFIDF_def arrayAt_def
        Let_def)
  then show ?thesis
    by (simp add: valid_bundle_def t euclidean_norm_def)
qed

text \<open>
  Claim C5, amended: for a bundle with one IDF weight for each term of a vocabulary of
  distinct terms, the raw vector of counts times IDF weights is divided by its
  Euclidean norm exactly when that norm is positive, and is otherwise the zero vector
  and left as it is. The norm is positive exactly when a token of the text is a term
  of the vocabulary whose IDF weight is not 0; the vector returned has norm 1 in that
  case and norm 0 in the other. Numbers are real numbers here, so the norm is 1
  exactly.
\<close>

theorem transform_norm:
  assumes "length idfs = length vocab" and "distinct vocab"
  shows "\<exists>raw fs.
           fst (raw_features (new_SimpleTFIDF vocab idfs) text) = map Num raw \<and>
           transform (new_SimpleTFIDF vocab idfs) text = map Num fs \<and>
           length fs = length vocab \<and>
           fs = (if euclidean_norm raw > 0 then map (\<lambda>x. x / euclidean_norm raw) raw else raw) \<and>
           (euclidean_norm raw > 0 \<or> raw = replicate (length vocab) 0) \<and>
           (euclidean_norm raw > 0 \<longleftrightarrow>
              (\<exists>i<length vocab. vocab ! i \<in> set (transform_tokens text) \<and> idfs ! i \<noteq> 0)) \<and>
           euclidean_norm fs = (if euclidean_norm raw > 0 then 1 else 0)"
proof -
  let ?v = "new_SimpleTFIDF vocab idfs"
  from assms(1) have "length vocab \<le> length idfs" by simp
  from raw_features_shape [OF this, of "text"] obtain raw where
    shape: "raw_features ?v text = (map Num raw, Num (\<Sum>x\<leftarrow>raw. x\<^sup>2))"
    and len: "length raw = length vocab"
    and nz: "(\<exists>x\<in>set raw. x \<noteq> 0) \<longleftrightarrow>
             (\<exists>t\<in>set (transform_tokens text). \<exists>i. vocabMap ?v t = Some i \<and> idfs ! i \<noteq> 0)"
    by blast
  let ?ss = "\<Sum>x\<leftarrow>raw. x\<^sup>2"
  let ?fs = "if euclidean_norm raw > 0 then map (\<lambda>x. x / euclidean_norm raw) raw else raw"
  have pos: "euclidean_norm raw > 0 \<longleftrightarrow> ?ss > 0"
    by (simp add: euclidean_norm_def)
  have tr: "transform ?v text = map Num ?fs"
  proof (cases "?ss > 0")
    case True
    then have "sqrt ?ss \<noteq> 0" by simp
    with True show ?thesis
      by (simp add: transform_def shape euclidean_norm_def)
  next
    case False
    then show ?thesis
      by (simp add: transform_def shape euclidean_norm_def)
  qed
  have occurs: "euclidean_norm raw > 0 \<longleftrightarrow>
      (\<exists>i<length vocab. vocab ! i \<in> set (transform_tokens text) \<and> idfs ! i \<noteq> 0)"
  proof -
    have "(\<exists>t\<in>set (transform_tokens text). \<exists>i. vocabMap ?v t = Some i \<and> idfs ! i \<noteq> 0) \<longleftrightarrow>
          (\<exists>i<length vocab. vocab ! i \<in> set (transform_tokens text) \<and> idfs ! i \<noteq> 0)"
    proof
      assume "\<exists>t\<in>set (transform_tokens text). \<exists>i. vocabMap ?v t = Some i \<and> idfs ! i \<noteq> 0"
      then obtain t i where "t \<in> set (transform_tokens text)" "vocabMap ?v t = Some i" "idfs ! i \<noteq> 0"
        by blast
      with vocabMap_Some [of vocab idfs t i]
      show "\<exists>i<length vocab. vocab ! i \<in> set (transform_tokens text) \<and> idfs ! i \<noteq> 0"
        by auto
    next
      assume "\<exists>i<length vocab. vocab ! i \<in> set (transform_tokens text) \<and> idfs ! i \<noteq> 0"
      then obtain i where "i < length vocab" "vocab ! i \<in> set (transform_tokens text)" "idfs ! i \<noteq> 0"
        by blast
      with vocabMap_distinct [OF assms(2), of i idfs]
      show "\<exists>t\<in>set (transform_tokens text). \<exists>i. vocabMap ?v t = Some i \<and> idfs ! i \<noteq> 0"
        by blast
    qed
    with nz euclidean_norm_pos_iff [of raw] show ?thesis by simp
  qed
  have norm: "euclidean_norm ?fs = (if euclidean_norm raw > 0 then 1 else 0)"
  proof (cases "euclidean_norm raw > 0")
    case True
    then show ?thesis by (simp add: normalised_norm)
  next
    case False
    moreover have "euclidean_norm raw \<ge> 0" by (simp add: euclidean_norm_def sum_sq_nonneg)
    ultimately show ?thesis by simp
  qed
  have zero: "euclidean_norm raw > 0 \<or> raw = replicate (length vocab) 0"
  proof (cases "euclidean_norm raw > 0")
    case True
    then show ?thesis by simp
  next
    case False
    with euclidean_norm_pos_iff [of raw] have "\<forall>x\<in>set raw. x = 0" by blast
    then have "raw = replicate (length raw) 0"
      by (simp add: list_eq_iff_nth_eq)
    with len show ?thesis by simp
  qed
  have "length ?fs = length vocab" using len by simp
  with shape tr occurs norm zero show ?thesis
    by (intro exI [of _ raw] exI [of _ ?fs]) simp
qed

theorem transform_norm_witness:
  "\<exists>fs. transform (new_SimpleTFIDF [''report'', ''fake''] [1, 2]) ''Fake reports, fake!'' = map Num fs \<and>
        euclidean_norm fs = 1"
proof -
  have t: "transform_tokens ''Fake reports, fake!'' = [''fake'', ''report'', ''fake'']"
    by code_simp
  have l: "length [1, 2 :: real] = length [''report'', ''fake'']" by simp
  have d: "distinct [''report'', ''fake'']" by simp
  have o: "\<exists>i<length [''report'', ''fake''].
             [''report'', ''fake''] ! i \<in> set (transform_tokens ''Fake reports, fake!'') \<and>
             [1, 2 :: real] ! i \<noteq> 0"
    unfolding t by (intro exI [of _ 0]) simp
  from transform_norm [OF l d, of "''Fake reports, fake!''"] o show ?thesis
    by metis
qed

subsection \<open>C6: short words\<close>

text \<open>
  Claim C6: a word of at most two lowercase letters is returned by \<open>stem\<close> unchanged.
  The pool is read for it as for every word, and holds nothing under so short a name;
  no step runs.
\<close>

theorem stem_short_unchanged:
  assumes "length w \<le> 2" and "lowercase_word w"
  shows "stem w = JStr w \<and> pool_get w = JUndefined"
  using assms by (simp add: stem_def toLowerCase_lower pool_get_short)

theorem stem_short_unchanged_witness:
  "length ''ox'' \<le> 2 \<and> lowercase_word ''ox'' \<and> stem ''ox'' = JStr ''ox'' \<and> pool_get ''ox'' = JUndefined"
proof -
  have l: "length ''ox'' \<le> 2" by simp
  have a: "lowercase_word ''ox''" by (simp add: lowercase_word_def)
  from stem_short_unchanged [OF l a] l a show ?thesis by blast
qed

subsection \<open>C7: irregular forms\<close>

text \<open>
  Claim C7: a word that is a key of the inverted table of irregular forms is stemmed
  to the stem the table gives for it, and no step is applied to it; so \<open>dying\<close> gives
  \<open>die\<close> and \<open>news\<close> gives \<open>news\<close>.
\<close>

theorem stem_irregular:
  assumes "pool w = Some s"
  shows "stem w = JStr s"
proof -
  from pool_Some [OF assms] have "toLowerCase w = w \<and> s \<noteq> []"
    by (auto simp: toLowerCase_def toLowerCaseChar_def)
  then show ?thesis using assms
    by (simp add: stem_def pool_get_def)
qed

theorem stem_irregular_witness:
  "pool ''dying'' = Some ''die'' \<and> stem ''dying'' = JStr ''die'' \<and>
   pool ''news'' = Some ''news'' \<and> stem ''news'' = JStr ''news''"
proof -
  have d: "pool ''dying'' = Some ''die''" by (simp add: pool_def irregularForms_def)
  have n: "pool ''news'' = Some ''news''" by (simp add: pool_def irregularForms_def)
  from stem_irregular [OF d] stem_irregular [OF n] d n show ?thesis by blast
qed

text \<open>Without the pool the steps would cut \<open>news\<close> down to \<open>new\<close>.\<close>

lemma news_through_the_steps:
  "step5b (step5a (step4 (step3 (step2 (step1c (step1b (step1a ''news''))))))) = ''new''"
  by code_simp

subsection \<open>C8: the rule for \<open>logi\<close>\<close>

text \<open>
  Claim C8: in step 2 a word that ends with \<open>logi\<close> has this suffix rewritten to \<open>log\<close>
  exactly when the measure of the word without its last three characters is
  positive; otherwise it is left as it is. The \<open>l\<close> counts with the stem.
\<close>

theorem step2_logi_rule:
  assumes "endsWith word ''logi''"
  shows "step2 word =
     (if measure_m (slice_end word 3) > 0 then slice_end word 4 @ ''log'' else word)"
proof -
  from endsWith_append [OF assms] obtain p where p: "word = p @ ''logi''"
    by simp
  show ?thesis
    unfolding p by (simp add: step2_logi slice_end_def hasPositiveMeasure_def)
qed

text \<open>
  At \<open>ologi\<close> the rule fires although the stem in front of \<open>logi\<close> has measure 0.
\<close>

theorem step2_logi_rule_witness:
  "endsWith ''ologi'' ''logi'' \<and> step2 ''ologi'' = ''olog'' \<and>
   measure_m (slice_end ''ologi'' 3) = 1 \<and> measure_m (slice_end ''ologi'' 4) = 0"
proof -
  have e: "endsWith ''ologi'' ''logi''" by code_simp
  have m: "measure_m (slice_end ''ologi'' 3) = 1" by code_simp
  have c: "measure_m (slice_end ''ologi'' 4) = 0" by code_simp
  have s: "slice_end ''ologi'' 4 @ ''log'' = ''olog''" by (simp add: slice_end_def)
  from step2_logi_rule [OF e] m have "step2 ''ologi'' = ''olog''"
    by (simp add: s)
  with e m c show ?thesis by blast
qed

subsection \<open>C9: termination\<close>

text \<open>
  Claim C9: \<open>stem\<close> returns on every input. Its recursions are those of \<open>step2\<close>, on a
  word with a final \<open>alli\<close> rewritten to \<open>al\<close> and so strictly shorter, and of
  \<open>isConsonant\<close>, on the index before a \<open>y\<close>; the loop of \<open>measure\<close> moves on to a later
  position in each round. Run as the source has them, with nothing that bounds
  them, each returns what the total function used in \<open>stem\<close> returns.
\<close>

theorem stem_returns:
  "stem_run word = Some (stem word) \<and>
   step2_rec word = Some (step2 word) \<and>
   isConsonant_rec word i = Some (isConsonant word i) \<and>
   vc_loop_rec cv pos count = Some (vc_loop cv pos count) \<and>
   (endsWith word ''alli'' \<longrightarrow> length (replaceSuffix word ''alli'' ''al'') < length word)"
  by (simp add: stem_run_def stem_def step2_rec_total isConsonant_rec_total vc_loop_rec_total
      alli_shorter Let_def)

theorem stem_returns_witness:
  "stem_run ''radicalli'' = Some (JStr ''radic'') \<and>
   step2_rec ''radicalli'' = Some ''radical'' \<and>
   endsWith ''radicalli'' ''alli'' \<and>
   length (replaceSuffix ''radicalli'' ''alli'' ''al'') < length ''radicalli''"
proof -
  have s: "stem ''radicalli'' = JStr ''radic''" by code_simp
  have t: "step2 ''radicalli'' = ''radical''" by code_simp
  have e: "endsWith ''radicalli'' ''alli''" by code_simp
  from stem_returns [of "''radicalli''"] s t e show ?thesis by simp
qed

subsection \<open>C10: the case of the letters\<close>

text \<open>
  Claim C10: \<open>stem\<close> gives for every string what it gives for the string in lower
  case, since it puts its argument in lower case before anything else.
\<close>

theorem stem_case_insensitive: "stem w = stem (toLowerCase w)"
  by (simp add: stem_def toLowerCase_idem)

theorem stem_case_insensitive_witness:
  "toLowerCase ''DyING'' = ''dying'' \<and> stem ''DyING'' = stem ''dying''"
proof -
  have l: "toLowerCase ''DyING'' = ''dying''" by code_simp
  from stem_case_insensitive [of "''DyING''"] l show ?thesis by simp
qed

subsection \<open>An observation on the pool\<close>

text \<open>
  The pool is a plain object, so the word \<open>constructor\<close> finds the function \<open>Object\<close>
  in it, inherited from \<open>Object.prototype\<close>, and \<open>stem\<close> returns that function instead
  of a string. Joined into the text it reads as the source text of a native function,
  and \<open>transform\<close> counts the pieces of that text as tokens.
\<close>

lemma stem_constructor:
  "stem ''constructor'' = JInherited ''constructor'' \<and>
   stemming ''The constructor'' = ''function Object() { [native code] }'' \<and>
   transform_tokens ''The constructor'' =
     [''function'', ''Object()'', ''{'', ''[native'', ''code]'', ''}'']"
  by code_simp

end
